theory Spec2Isabelle
  imports Complex_Main "HOL-Library.Word" "HOL-Library.AList"
begin

section \<open>Values exchanged with the Java and Android libraries\<close>

text \<open>
  A Java \<open>String\<close> reference is either a string or \<open>null\<close>; \<open>None\<close> stands for
  \<open>null\<close>. \<open>format_s\<close> is how \<open>String.format("%s", v)\<close> and string concatenation
  render such a reference.
\<close>

type_synonym jstring = "string option"

definition format_s :: "jstring \<Rightarrow> string" where
  "format_s v = (case v of None \<Rightarrow> ''null'' | Some t \<Rightarrow> t)"

text \<open>
  A \<open>HashMap<String, String>\<close> is an association list with one entry per key;
  \<open>put\<close> is \<open>AList.update\<close>. A \<open>JSObject\<close> holding headers or metadata is the list of
  its keys, each with what \<open>getString(key)\<close> returns (\<open>null\<close> for a value that is
  not a string).
\<close>

type_synonym hashmap = "(string \<times> jstring) list"

type_synonym JSObject = "(string \<times> jstring) list"

definition getString :: "JSObject \<Rightarrow> string \<Rightarrow> jstring" where
  "getString j k = (case map_of j k of None \<Rightarrow> None | Some v \<Rightarrow> v)"

definition put :: "string \<Rightarrow> jstring \<Rightarrow> hashmap \<Rightarrow> hashmap" where
  "put k v m = AList.update k v m"

text \<open>
  The copy loops of \<open>upload\<close>:
  \<^verbatim>\<open>while (keys.hasNext()) { String key = keys.next(); map.put(key, json.getString(key)); }\<close>
\<close>

definition copy_entries :: "JSObject \<Rightarrow> hashmap" where
  "copy_entries j = foldl (\<lambda>m k. put k (getString j k) m) [] (map fst j)"

text \<open>
  The options object of an \<open>upload\<close> call, read by
  \<open>getString("uri")\<close>, \<open>getString("endpoint")\<close>, \<open>getJSObject("headers")\<close>,
  \<open>getJSObject("metadata")\<close> and \<open>getInteger("chunkSize", null)\<close>; each is
  \<open>null\<close> when the key is missing. A Java \<open>Integer\<close> is a 32-bit signed value.
\<close>

record UploadOptions =
  uri :: jstring
  endpoint :: jstring
  headers :: "JSObject option"
  metadata :: "JSObject option"
  customChunkSize :: "32 word option"

text \<open>
  What the Android content resolver answers for a content URI. An \<open>InputStream\<close> is
  known here by the result of \<open>available()\<close> (a Java \<open>int\<close>, or an
  \<open>IOException\<close> with its message). A \<open>Cursor\<close> is known by the index of its
  \<open>DISPLAY_NAME\<close> column (\<open>-1\<close> when the column is absent) and by the cell of
  that column in each row (\<open>null\<close> for an SQL NULL); \<open>moveToFirst()\<close> is true
  when there is a row.
\<close>

record InputStream =
  available :: "jstring + 32 word"

record Cursor =
  getColumnIndex :: int
  rows :: "jstring list"

record Android =
  openInputStream :: "string \<Rightarrow> jstring + InputStream option"
  query :: "string \<Rightarrow> Cursor option"
  randomUUID :: string
  parseURL :: "string \<Rightarrow> jstring option"

section \<open>java.net.URL\<close>

text \<open>
  The constructor \<open>new URL(spec)\<close> of the Java class library, as far as the plugin
  depends on it: it trims characters up to the blank, skips a leading \<open>url:\<close>, and
  scans for a protocol name ended by a colon before any slash. Without a protocol it
  throws \<open>MalformedURLException("no protocol: " + spec)\<close>. With one, the protocol
  handler parses the rest, which is left to the environment (\<open>parseURL\<close> gives the
  message of the exception, if any). \<open>MalformedURLException\<close> is an \<open>IOException\<close>.
\<close>

definition is_blank :: "char \<Rightarrow> bool" where
  "is_blank c = ((of_char c :: nat) \<le> 32)"

definition is_letter :: "char \<Rightarrow> bool" where
  "is_letter c = (let n = (of_char c :: nat) in (65 \<le> n \<and> n \<le> 90) \<or> (97 \<le> n \<and> n \<le> 122))"

definition is_digit :: "char \<Rightarrow> bool" where
  "is_digit c = (let n = (of_char c :: nat) in 48 \<le> n \<and> n \<le> 57)"

definition to_lower :: "char \<Rightarrow> char" where
  "to_lower c = (let n = (of_char c :: nat) in if 65 \<le> n \<and> n \<le> 90 then char_of (n + 32) else c)"

definition isValidProtocol :: "string \<Rightarrow> bool" where
  "isValidProtocol p =
     (case p of [] \<Rightarrow> False
      | c # cs \<Rightarrow> is_letter c \<and>
          list_all (\<lambda>d. is_letter d \<or> is_digit d \<or> d = CHR ''.'' \<or> d = CHR ''+'' \<or> d = CHR ''-'') cs)"

fun scan_protocol :: "string \<Rightarrow> string \<Rightarrow> string option" where
  "scan_protocol acc [] = None"
| "scan_protocol acc (c # cs) =
     (if c = CHR ''/'' then None
      else if c = CHR '':'' then
        (if isValidProtocol (map to_lower (rev acc)) then Some (map to_lower (rev acc)) else None)
      else scan_protocol (c # acc) cs)"

definition url_protocol :: "string \<Rightarrow> string option" where
  "url_protocol spec =
     (let trimmed = dropWhile is_blank (rev (dropWhile is_blank (rev spec)));
          s = (if map to_lower (take 4 trimmed) = ''url:'' then drop 4 trimmed else trimmed)
      in case s of [] \<Rightarrow> None
         | c # cs \<Rightarrow> if c = CHR ''#'' then None else scan_protocol [] s)"

definition new_URL :: "Android \<Rightarrow> string \<Rightarrow> jstring + string" where
  "new_URL env spec =
     (case url_protocol spec of
        None \<Rightarrow> Inl (Some (''no protocol: '' @ spec))
      | Some p \<Rightarrow> (case parseURL env spec of Some m \<Rightarrow> Inl m | None \<Rightarrow> Inr spec))"

section \<open>CapacitorTusClientConfig\<close>

record CapacitorTusClientConfig =
  chunkSize :: "32 word"

definition new_CapacitorTusClientConfig :: CapacitorTusClientConfig where
  "new_CapacitorTusClientConfig = \<lparr>chunkSize = 6 * 1024 * 1024\<rparr>"

text \<open>
  The static field \<open>instance\<close> is \<open>None\<close> until the first \<open>getInstance()\<close>, which
  stores a fresh configuration in it.
\<close>

definition getInstance :: "CapacitorTusClientConfig option \<Rightarrow> CapacitorTusClientConfig" where
  "getInstance inst = (case inst of None \<Rightarrow> new_CapacitorTusClientConfig | Some c \<Rightarrow> c)"

definition getChunkSize :: "CapacitorTusClientConfig \<Rightarrow> 32 word" where
  "getChunkSize c = chunkSize c"

definition setChunkSize :: "32 word \<Rightarrow> CapacitorTusClientConfig \<Rightarrow> CapacitorTusClientConfig" where
  "setChunkSize n c = c\<lparr>chunkSize := n\<rparr>"

section \<open>CapacitorTusClientRunnable: the data\<close>

text \<open>
  \<open>TusUpload\<close> and \<open>TusUploader\<close> belong to the TUS client library. A new
  \<open>TusUpload\<close> has size 0; the size is a Java \<open>long\<close>. A \<open>TusUploader\<close> exists
  once \<open>resumeOrCreateUpload\<close> has returned; the plugin reads its upload URL and sets
  its chunk size.
\<close>

record TusUpload =
  upload_size :: int
  fingerprint :: string
  upload_metadata :: hashmap

record TusUploader =
  uploadURL :: string
  uploader_chunkSize :: "32 word"

record CapacitorTusClientRunnable =
  upload :: TusUpload
  uploader :: "TusUploader option"
  creationURL :: string
  client_headers :: hashmap
  uploadId :: string
  shouldFinish :: bool
  isRunning :: bool
  isPaused :: bool

text \<open>
  The constructor. \<open>new URL(endpoint)\<close> is its first call that can fail; the size is
  set only when \<open>available()\<close> returns; the file name is put into the metadata
  map under \<open>filename\<close>.
\<close>

definition new_CapacitorTusClientRunnable ::
  "Android \<Rightarrow> InputStream \<Rightarrow> jstring \<Rightarrow> string \<Rightarrow> string \<Rightarrow> hashmap \<Rightarrow> hashmap
     \<Rightarrow> jstring + CapacitorTusClientRunnable" where
  "new_CapacitorTusClientRunnable env inputStream fileName uid endp md hs =
     (case new_URL env endp of
        Inl e \<Rightarrow> Inl e
      | Inr url \<Rightarrow>
          Inr \<lparr>upload =
                 \<lparr>upload_size = (case available inputStream of Inr n \<Rightarrow> sint n | Inl e \<Rightarrow> 0),
                  fingerprint = format_s fileName @ ''-'' @ uid,
                  upload_metadata = put ''filename'' fileName md\<rparr>,
               uploader = None,
               creationURL = url,
               client_headers = hs,
               uploadId = uid,
               shouldFinish = False,
               isRunning = False,
               isPaused = False\<rparr>)"

text \<open>The methods \<open>pause\<close>, \<open>resume\<close> and \<open>isRunning()\<close> of a session.\<close>

definition pause :: "CapacitorTusClientRunnable \<Rightarrow> CapacitorTusClientRunnable" where
  "pause x = x\<lparr>isPaused := True\<rparr>"

definition resume :: "CapacitorTusClientRunnable \<Rightarrow> CapacitorTusClientRunnable" where
  "resume x = x\<lparr>isPaused := False\<rparr>"

definition isRunning_get :: "CapacitorTusClientRunnable \<Rightarrow> bool" where
  "isRunning_get x = (isRunning x \<and> \<not> isPaused x)"

section \<open>What the plugin does to the outside\<close>

text \<open>
  A Java \<open>double\<close> is either a finite number, an infinity or not-a-number. Finite
  results are kept as exact fractions: the rounding of the floating-point unit is not
  modelled. \<open>progress_of\<close> is the expression
  \<^verbatim>\<open>((double) bytesUploaded / totalBytes) * 100\<close>
  where the division of a \<open>double\<close> by zero gives an infinity or, for \<open>0 / 0\<close>,
  not-a-number.
\<close>

datatype jdouble = Finite rat | PosInfinity | NegInfinity | NaN

definition progress_of :: "int \<Rightarrow> int \<Rightarrow> jdouble" where
  "progress_of sent whole =
     (if whole = 0 then
        (if sent = 0 then NaN else if 0 < sent then PosInfinity else NegInfinity)
      else Finite (of_int sent / of_int whole * 100))"


text \<open>The four events passed to \<open>triggerListener\<close>, each with its payload.\<close>

datatype event =
    onStart (ev_uploadId: string) (ev_context: hashmap)
  | onProgress (ev_uploadId: string) (progress: jdouble) (bytesUploaded: int)
      (totalBytes: int) (ev_context: hashmap)
  | onSuccess (ev_uploadId: string) (uploadUrl: string) (ev_context: hashmap)
  | onError (ev_uploadId: string) (error: jstring) (ev_context: hashmap)

text \<open>
  The calls made on the TUS client library for a session, given by its reference.
  \<open>GetOffset\<close> carries the offset the library returned.
\<close>

datatype engine_call =
    ResumeOrCreateUpload
  | SetChunkSize "32 word"
  | GetOffset int
  | UploadChunk
  | Finish

text \<open>
  Everything observable is appended to one trace, with the thread that did it: the
  thread of a plugin call, or the worker running a submitted task.
\<close>

datatype thread = Caller | Worker nat

datatype effect = Notify event | Engine nat engine_call

datatype jsvalue = JString string | JBool bool

datatype call_result = Resolved "(string \<times> jsvalue) list" | Rejected string

section \<open>CapacitorTusClientPlugin: the state\<close>

text \<open>
  A task is one submission of a session to the pool. \<open>stage\<close> is where its worker stands
  in \<open>run()\<close>: still in the queue, about to call \<open>makeAttempt\<close>, at the head of
  the loop (the pause check), at the loop condition (the chunk upload), at
  \<open>uploader.finish()\<close>, or returned. The local \<open>totalBytes\<close> is kept with the loop
  positions.
\<close>

datatype pc = Queued | Attempt | Wait int | Chunk int | Finalize | Done

record task =
  target :: nat
  stage :: pc

text \<open>
  The sessions live in a heap, addressed by their index; \<open>executorsMap\<close> maps an
  upload id to a reference. \<open>pool\<close> holds every task ever submitted, in submission
  order, and \<open>nThreads\<close> is the size of the fixed thread pool. The references held
  by the registry and by the tasks are always allocated (see \<open>well_formed\<close> below),
  so every \<open>heap s ! ref\<close> of the model reads a session that exists.
\<close>

record plugin =
  config_instance :: "CapacitorTusClientConfig option"
  heap :: "CapacitorTusClientRunnable list"
  executorsMap :: "string \<rightharpoonup> nat"
  pool :: "task list"
  nThreads :: nat
  trace :: "(thread \<times> effect) list"

definition init :: "nat \<Rightarrow> plugin" where
  "init n = \<lparr>config_instance = None, heap = [], executorsMap = Map.empty, pool = [],
             nThreads = n, trace = []\<rparr>"

definition submit :: "nat \<Rightarrow> plugin \<Rightarrow> plugin" where
  "submit ref s = s\<lparr>pool := pool s @ [\<lparr>target = ref, stage = Queued\<rparr>]\<rparr>"

section \<open>CapacitorTusClientPlugin: the calls\<close>

text \<open>\<open>Uri.parse\<close> of Android builds a URI object from any string.\<close>

definition Uri_parse :: "string \<Rightarrow> string option" where
  "Uri_parse fileUri = Some fileUri"

definition getFileName :: "Cursor option \<Rightarrow> jstring" where
  "getFileName cursor =
     (case cursor of
        None \<Rightarrow> Some ''unknown_file''
      | Some c \<Rightarrow>
          (let nameIndex = getColumnIndex c
           in if nameIndex \<noteq> - 1 \<and> rows c \<noteq> [] then hd (rows c) else Some ''unknown_file''))"

definition plugin_upload :: "Android \<Rightarrow> UploadOptions option \<Rightarrow> plugin \<Rightarrow> call_result \<times> plugin" where
  "plugin_upload env call s =
     (case call of
        None \<Rightarrow> (Rejected ''Missing options for the upload.'', s)
      | Some options \<Rightarrow>
     (case uri options of
        None \<Rightarrow> (Rejected ''The 'uri' provided is null or empty.'', s)
      | Some fileUri \<Rightarrow>
     if fileUri = [] then (Rejected ''The 'uri' provided is null or empty.'', s) else
     (case Uri_parse fileUri of
        None \<Rightarrow> (Rejected ''The 'uri' could not be parsed.'', s)
      | Some u \<Rightarrow>
     (case endpoint options of
        None \<Rightarrow> (Rejected ''Missing endpoint in options.'', s)
      | Some endp \<Rightarrow>
     (let config = getInstance (config_instance s);
          config' = (case customChunkSize options of
                       None \<Rightarrow> config
                     | Some c \<Rightarrow> if 0 < sint c then setChunkSize c config else config);
          s1 = s\<lparr>config_instance := Some config'\<rparr>;
          hs = (case headers options of None \<Rightarrow> [] | Some j \<Rightarrow> copy_entries j);
          md = (case metadata options of None \<Rightarrow> [] | Some j \<Rightarrow> copy_entries j)
      in case openInputStream env u of
           Inl e \<Rightarrow> (Rejected (''Error creating upload: '' @ format_s e), s1)
         | Inr None \<Rightarrow> (Rejected ''Unable to open file stream for the Uri.'', s1)
         | Inr (Some inputStream) \<Rightarrow>
             (let uid = randomUUID env
              in case new_CapacitorTusClientRunnable env inputStream
                        (getFileName (query env u)) uid endp md hs of
                   Inl e \<Rightarrow> (Rejected (''Error creating upload: '' @ format_s e), s1)
                 | Inr executor \<Rightarrow>
                     (let ref = length (heap s1);
                          s2 = s1\<lparr>heap := heap s1 @ [executor],
                                  executorsMap := (executorsMap s1)(uid \<mapsto> ref)\<rparr>;
                          s3 = (if \<not> isRunning_get executor then submit ref s2 else s2)
                      in (Resolved [(''uploadId'', JString uid)], s3))))))))"

definition plugin_pause :: "jstring \<Rightarrow> plugin \<Rightarrow> call_result \<times> plugin" where
  "plugin_pause uid s =
     (case uid of
        None \<Rightarrow> (Rejected ''Invalid or missing uploadId'', s)
      | Some u \<Rightarrow>
          (case executorsMap s u of
             None \<Rightarrow> (Rejected ''Invalid or missing uploadId'', s)
           | Some ref \<Rightarrow>
               (Resolved [(''success'', JBool True),
                          (''message'', JString ''Upload paused successfully'')],
                s\<lparr>heap := (heap s)[ref := pause (heap s ! ref)]\<rparr>)))"

definition plugin_resume :: "jstring \<Rightarrow> plugin \<Rightarrow> call_result \<times> plugin" where
  "plugin_resume uid s =
     (case uid of
        None \<Rightarrow> (Rejected ''Invalid or missing uploadId'', s)
      | Some u \<Rightarrow>
          (case executorsMap s u of
             None \<Rightarrow> (Rejected ''Invalid or missing uploadId'', s)
           | Some ref \<Rightarrow>
               (let executor = resume (heap s ! ref);
                    s1 = s\<lparr>heap := (heap s)[ref := executor]\<rparr>;
                    s2 = (if \<not> isRunning_get executor then submit ref s1 else s1)
                in (Resolved [(''success'', JBool True),
                              (''message'', JString ''Upload resumed successfully'')], s2))))"

text \<open>
  What the environment answers to a worker or to \<open>finish()\<close>: a call returned (or a
  sleep elapsed), \<open>resumeOrCreateUpload\<close> returned an uploader with its upload URL,
  \<open>getOffset\<close> returned an offset, \<open>uploadChunk\<close> returned a count, a call threw
  a \<open>ProtocolException\<close> or \<open>IOException\<close> with a message (the flag says whether
  \<open>TusExecutor.makeAttempts\<close> of the TUS library catches it and calls
  \<open>makeAttempt\<close> again), or the sleeping thread was interrupted.
\<close>

datatype reply =
    Returned
  | Created string
  | Offset int
  | Sent int
  | Threw jstring bool
  | Interrupted

text \<open>
  \<open>finish()\<close> of a session, called by \<open>abort\<close> on the caller's thread. The result
  is the message of the exception that \<open>uploader.finish()\<close> threw, if any.
\<close>

definition finish :: "reply \<Rightarrow> nat \<Rightarrow> plugin \<Rightarrow> jstring option \<times> plugin" where
  "finish r ref s =
     (let x = heap s ! ref
      in if isRunning x then (None, s\<lparr>heap := (heap s)[ref := x\<lparr>shouldFinish := True\<rparr>]\<rparr>)
         else (case uploader x of
                 None \<Rightarrow> (None, s)
               | Some u \<Rightarrow>
                   (let s' = s\<lparr>trace := trace s @ [(Caller, Engine ref Finish)]\<rparr>
                    in case r of Threw m again \<Rightarrow> (Some m, s') | _ \<Rightarrow> (None, s'))))"

definition plugin_abort :: "reply \<Rightarrow> jstring \<Rightarrow> plugin \<Rightarrow> call_result \<times> plugin" where
  "plugin_abort r uid s =
     (case uid of
        None \<Rightarrow> (Rejected ''Invalid or missing uploadId'', s)
      | Some u \<Rightarrow>
          (case executorsMap s u of
             None \<Rightarrow> (Rejected ''Invalid or missing uploadId'', s)
           | Some ref \<Rightarrow>
               (case finish r ref s of
                  (None, s') \<Rightarrow> (Resolved [], s')
                | (Some e, s') \<Rightarrow> (Rejected (''Error aborting upload: '' @ format_s e), s'))))"

section \<open>CapacitorTusClientRunnable: the worker\<close>

text \<open>
  The pool has \<open>nThreads\<close> threads and serves its queue in submission order: a
  queued task starts when no earlier task is queued and a thread is free.
\<close>

definition busy :: "task \<Rightarrow> bool" where
  "busy t = (stage t \<noteq> Queued \<and> stage t \<noteq> Done)"

definition can_start :: "nat \<Rightarrow> plugin \<Rightarrow> bool" where
  "can_start tid s =
     (length (filter busy (pool s)) < nThreads s \<and>
      list_all (\<lambda>t. stage t \<noteq> Queued) (take tid (pool s)))"

definition set_stage :: "nat \<Rightarrow> pc \<Rightarrow> plugin \<Rightarrow> plugin" where
  "set_stage tid p s = s\<lparr>pool := (pool s)[tid := (pool s ! tid)\<lparr>stage := p\<rparr>]\<rparr>"

definition emit :: "nat \<Rightarrow> effect list \<Rightarrow> plugin \<Rightarrow> plugin" where
  "emit tid es s = s\<lparr>trace := trace s @ map (Pair (Worker tid)) es\<rparr>"

text \<open>
  The end of \<open>run()\<close> after \<open>makeAttempts()\<close> returned: the success event with the
  uploader's URL, then \<open>isRunning = false\<close>. Without an uploader the call
  \<open>uploader.getUploadURL()\<close> is a \<open>NullPointerException\<close>, which ends \<open>run()\<close>
  there.
\<close>

definition succeed :: "nat \<Rightarrow> plugin \<Rightarrow> plugin" where
  "succeed tid s =
     (let ref = target (pool s ! tid); x = heap s ! ref
      in case uploader x of
           None \<Rightarrow> set_stage tid Done s
         | Some u \<Rightarrow>
             set_stage tid Done
               (emit tid [Notify (onSuccess (uploadId x) (uploadURL u) (upload_metadata (upload x)))]
                  (s\<lparr>heap := (heap s)[ref := x\<lparr>isRunning := False\<rparr>]\<rparr>)))"

text \<open>
  A \<open>ProtocolException\<close> or \<open>IOException\<close> leaves \<open>makeAttempt\<close> and is
  caught by \<open>makeAttempts\<close> of the TUS library. The library either waits and calls
  \<open>makeAttempt\<close> again (it decides by the exception and by the number of attempts
  made; here the flag \<open>again\<close> says so), or it throws the exception on to the
  \<open>catch\<close> of \<open>run()\<close>: the error event, then \<open>isRunning = false\<close>. The wait
  before a new attempt is taken to elapse.
\<close>

definition thrown :: "jstring \<Rightarrow> bool \<Rightarrow> nat \<Rightarrow> plugin \<Rightarrow> plugin" where
  "thrown m again tid s =
     (let ref = target (pool s ! tid); x = heap s ! ref
      in if again then set_stage tid Attempt s
         else set_stage tid Done
                (emit tid [Notify (onError (uploadId x) m (upload_metadata (upload x)))]
                   (s\<lparr>heap := (heap s)[ref := x\<lparr>isRunning := False\<rparr>]\<rparr>)))"

text \<open>
  One step of the worker of task \<open>tid\<close>, with the environment's answer \<open>r\<close>. An
  answer that does not fit the call the worker is about to make leaves the state as it is.
  \<^item> \<open>Queued\<close>: \<open>isRunning = true\<close> and the start event.
  \<^item> \<open>Attempt\<close>: \<open>resumeOrCreateUpload\<close>, then the chunk size is read from the
    configuration and set on the uploader, and \<open>totalBytes\<close> is read.
  \<^item> \<open>Wait\<close>: the pause check; the worker sleeps while paused and not finishing,
    otherwise it reads the offset and emits the progress event.
  \<^item> \<open>Chunk\<close>: the loop condition \<open>uploader.uploadChunk() > -1 && !shouldFinish\<close>.
  \<^item> \<open>Finalize\<close>: \<open>uploader.finish()\<close>, then the success event.
\<close>

definition run_step :: "reply \<Rightarrow> nat \<Rightarrow> plugin \<Rightarrow> plugin" where
  "run_step r tid s =
     (if length (pool s) \<le> tid then s
      else
       (let ref = target (pool s ! tid); x = heap s ! ref
        in case stage (pool s ! tid) of
          Queued \<Rightarrow>
            (if can_start tid s \<and> r = Returned then
               set_stage tid Attempt
                 (emit tid [Notify (onStart (uploadId x) (upload_metadata (upload x)))]
                    (s\<lparr>heap := (heap s)[ref := x\<lparr>isRunning := True\<rparr>]\<rparr>))
             else s)
        | Attempt \<Rightarrow>
            (case r of
               Created url \<Rightarrow>
                 (let config = getInstance (config_instance s);
                      n = getChunkSize config
                  in set_stage tid (Wait (upload_size (upload x)))
                       (emit tid [Engine ref ResumeOrCreateUpload, Engine ref (SetChunkSize n)]
                          (s\<lparr>config_instance := Some config,
                             heap := (heap s)[ref :=
                               x\<lparr>uploader := Some \<lparr>uploadURL = url, uploader_chunkSize = n\<rparr>\<rparr>]\<rparr>)))
             | Threw m again \<Rightarrow> thrown m again tid (emit tid [Engine ref ResumeOrCreateUpload] s)
             | _ \<Rightarrow> s)
        | Wait tb \<Rightarrow>
            (if isPaused x \<and> \<not> shouldFinish x then
               (case r of Interrupted \<Rightarrow> succeed tid s | _ \<Rightarrow> s)
             else
               (case r of
                  Offset b \<Rightarrow>
                    set_stage tid (Chunk tb)
                      (emit tid [Engine ref (GetOffset b),
                                Notify (onProgress (uploadId x) (progress_of b tb) b tb
                                          (upload_metadata (upload x)))] s)
                | _ \<Rightarrow> s))
        | Chunk tb \<Rightarrow>
            (case r of
               Sent n \<Rightarrow>
                 set_stage tid (if - 1 < n \<and> \<not> shouldFinish x then Wait tb else Finalize)
                   (emit tid [Engine ref UploadChunk] s)
             | Threw m again \<Rightarrow> thrown m again tid (emit tid [Engine ref UploadChunk] s)
             | _ \<Rightarrow> s)
        | Finalize \<Rightarrow>
            (case r of
               Returned \<Rightarrow> succeed tid (emit tid [Engine ref Finish] s)
             | Threw m again \<Rightarrow> thrown m again tid (emit tid [Engine ref Finish] s)
             | _ \<Rightarrow> s)
        | Done \<Rightarrow> s))"

section \<open>Runs of the plugin\<close>

text \<open>
  The plugin calls and the worker steps interleave in any order; each is one action. A
  worker step is a stretch of \<open>run()\<close> that meets the other threads once: it reads the
  flags of its session at one point, and a call that changes them falls before the step
  or after it. The flags are plain fields; they are read here as last written.
\<close>

datatype action =
    Upload Android "UploadOptions option"
  | Pause jstring
  | Resume jstring
  | Abort reply jstring
  | Work reply nat

fun step :: "plugin \<Rightarrow> action \<Rightarrow> plugin" where
  "step s (Upload env call) = snd (plugin_upload env call s)"
| "step s (Pause uid) = snd (plugin_pause uid s)"
| "step s (Resume uid) = snd (plugin_resume uid s)"
| "step s (Abort r uid) = snd (plugin_abort r uid s)"
| "step s (Work r tid) = run_step r tid s"

definition execute :: "plugin \<Rightarrow> action list \<Rightarrow> plugin" where
  "execute s acts = foldl step s acts"

section \<open>Notions used by the properties\<close>

text \<open>
  The guard of \<open>pause\<close>, \<open>resume\<close> and \<open>abort\<close>:
  \<^verbatim>\<open>uploadId == null || !executorsMap.containsKey(uploadId)\<close>
\<close>

definition unknown_id :: "jstring \<Rightarrow> plugin \<Rightarrow> bool" where
  "unknown_id uid s = (case uid of None \<Rightarrow> True | Some u \<Rightarrow> executorsMap s u = None)"

subsection \<open>Events and their order\<close>

text \<open>
  The events among some effects; the effects of one task, in order; and the events that
  carry a given upload id, in the order of their emission.
\<close>

fun events_in :: "effect list \<Rightarrow> event list" where
  "events_in [] = []"
| "events_in (Notify e # es) = e # events_in es"
| "events_in (Engine ref c # es) = events_in es"

definition task_trace :: "nat \<Rightarrow> plugin \<Rightarrow> effect list" where
  "task_trace tid s = map snd (filter (\<lambda>p. fst p = Worker tid) (trace s))"

definition events_for :: "string \<Rightarrow> plugin \<Rightarrow> event list" where
  "events_for u s = filter (\<lambda>e. ev_uploadId e = u) (events_in (map snd (trace s)))"

text \<open>
  The order \<open>onStart\<close>, then any number of \<open>onProgress\<close>, then one of
  \<open>onSuccess\<close> and \<open>onError\<close>, as an automaton: \<open>phase_after p es\<close> is the
  phase reached from \<open>p\<close> by the events \<open>es\<close>, or \<open>None\<close> when an event comes out
  of order (a second start, anything before the start, anything after the end).
\<close>

datatype phase = NotStarted | Started | Ended

fun next_phase :: "phase \<Rightarrow> event \<Rightarrow> phase option" where
  "next_phase NotStarted (onStart u c) = Some Started"
| "next_phase Started (onProgress u p b t c) = Some Started"
| "next_phase Started (onSuccess u l c) = Some Ended"
| "next_phase Started (onError u m c) = Some Ended"
| "next_phase p e = None"

fun phase_after :: "phase \<Rightarrow> event list \<Rightarrow> phase option" where
  "phase_after p [] = Some p"
| "phase_after p (e # es) =
     (case next_phase p e of None \<Rightarrow> None | Some q \<Rightarrow> phase_after q es)"

fun phase_of :: "pc \<Rightarrow> phase" where
  "phase_of Queued = NotStarted"
| "phase_of Done = Ended"
| "phase_of Attempt = Started"
| "phase_of (Wait tb) = Started"
| "phase_of (Chunk tb) = Started"
| "phase_of Finalize = Started"

text \<open>
  The session a task runs, and the number of times sessions with a given upload id were
  submitted to the pool.
\<close>

definition owner :: "nat \<Rightarrow> plugin \<Rightarrow> CapacitorTusClientRunnable" where
  "owner tid s = heap s ! target (pool s ! tid)"

definition submissions :: "string \<Rightarrow> plugin \<Rightarrow> nat" where
  "submissions u s = length (filter (\<lambda>t. uploadId (heap s ! target t) = u) (pool s))"

text \<open>The effects that one worker step appends to the trace.\<close>

definition emitted :: "reply \<Rightarrow> nat \<Rightarrow> plugin \<Rightarrow> effect list" where
  "emitted r tid s = map snd (drop (length (trace s)) (trace (run_step r tid s)))"

subsection \<open>Progress events and chunks\<close>

text \<open>
  \<open>progress_pair\<close>: the effect \<open>a\<close> is a \<open>getOffset\<close> call on the session and
  \<open>b\<close> is the progress event made from the offset it returned.
\<close>

definition progress_pair :: "nat \<Rightarrow> string \<Rightarrow> int \<Rightarrow> hashmap \<Rightarrow> effect \<Rightarrow> effect \<Rightarrow> bool" where
  "progress_pair ref u tb ctx a b =
     (\<exists>off. a = Engine ref (GetOffset off) \<and>
            b = Notify (onProgress u (progress_of off tb) off tb ctx))"

subsection \<open>Chunk sizes\<close>

text \<open>
  The chunk size a session runs with is the one set on its uploader. An action starts an
  attempt of a session when it is the step of a worker of that session whose call of
  \<open>resumeOrCreateUpload\<close> returns.
\<close>

definition observed_chunkSize :: "nat \<Rightarrow> plugin \<Rightarrow> 32 word option" where
  "observed_chunkSize ref s = map_option uploader_chunkSize (uploader (heap s ! ref))"


subsection \<open>Invariants of the reachable states\<close>

fun in_loop :: "pc \<Rightarrow> bool" where
  "in_loop (Wait tb) = True"
| "in_loop (Chunk tb) = True"
| "in_loop Finalize = True"
| "in_loop p = False"

text \<open>
  References are allocated, and a task inside the loop has an uploader.
\<close>

definition well_formed :: "plugin \<Rightarrow> bool" where
  "well_formed s =
     ((\<forall>t \<in> set (pool s). target t < length (heap s) \<and>
          (in_loop (stage t) \<longrightarrow> uploader (heap s ! target t) \<noteq> None)) \<and>
      (\<forall>ref \<in> ran (executorsMap s). ref < length (heap s)))"

text \<open>
  What the effects \<open>tr\<close> of a task at stage \<open>st\<close> look like, for the session
  \<open>ref\<close> with upload id \<open>u\<close> and upload \<open>up\<close>: every chunk upload comes right
  after an offset read and its progress event; a task about to upload a chunk has just
  emitted them; the local \<open>totalBytes\<close> is the size of the upload; and every progress
  event carries that size and the percentage computed from it.
\<close>

definition task_ok :: "pc \<Rightarrow> effect list \<Rightarrow> nat \<Rightarrow> string \<Rightarrow> TusUpload \<Rightarrow> bool" where
  "task_ok st tr ref u up =
     ((\<forall>i r'. i < length tr \<and> tr ! i = Engine r' UploadChunk \<longrightarrow>
         r' = ref \<and> 2 \<le> i \<and>
         progress_pair ref u (upload_size up) (upload_metadata up) (tr ! (i - 2)) (tr ! (i - 1))) \<and>
      (\<forall>tb. st = Chunk tb \<longrightarrow>
         tb = upload_size up \<and> 2 \<le> length tr \<and>
         progress_pair ref u (upload_size up) (upload_metadata up)
           (tr ! (length tr - 2)) (tr ! (length tr - 1))) \<and>
      (\<forall>tb. st = Wait tb \<longrightarrow> tb = upload_size up) \<and>
      (\<forall>e \<in> set (events_in tr). is_onProgress e \<longrightarrow>
         totalBytes e = upload_size up \<and>
         progress e = progress_of (bytesUploaded e) (upload_size up)))"

text \<open>
  The invariant: the state is well formed; only workers of submitted tasks emit events,
  and each event carries the upload id and the metadata of the session the task runs;
  the events of each task are in order and have reached the phase of the task's stage;
  and the effects of each task are as \<open>task_ok\<close> says.
\<close>

definition invariant :: "plugin \<Rightarrow> bool" where
  "invariant s =
     (well_formed s \<and>
      (\<forall>tid eff. (Worker tid, eff) \<in> set (trace s) \<longrightarrow> tid < length (pool s)) \<and>
      (\<forall>e. (Caller, Notify e) \<notin> set (trace s)) \<and>
      (\<forall>tid e. (Worker tid, Notify e) \<in> set (trace s) \<longrightarrow>
         ev_uploadId e = uploadId (owner tid s) \<and>
         ev_context e = upload_metadata (upload (owner tid s))) \<and>
      (\<forall>tid < length (pool s).
         phase_after NotStarted (events_in (task_trace tid s)) =
           Some (phase_of (stage (pool s ! tid)))) \<and>
      (\<forall>tid < length (pool s).
         task_ok (stage (pool s ! tid)) (task_trace tid s) (target (pool s ! tid))
           (uploadId (owner tid s)) (upload (owner tid s))))"

subsection \<open>Concrete inputs\<close>

text \<open>
  A device on which every content URI opens a stream of 100 available bytes, the content
  query has a display-name column and one row holding \<open>name\<close>, the next random UUID is
  \<open>uid\<close>, and every URL that has a protocol parses. The options name a file and an
  endpoint and nothing else.
\<close>

definition photo_android :: "string \<Rightarrow> jstring \<Rightarrow> Android" where
  "photo_android uid name =
     \<lparr>openInputStream = (\<lambda>u. Inr (Some \<lparr>available = Inr 100\<rparr>)),
      query = (\<lambda>u. Some \<lparr>getColumnIndex = 0, rows = [name]\<rparr>),
      randomUUID = uid,
      parseURL = (\<lambda>u. None)\<rparr>"

definition photo_options :: UploadOptions where
  "photo_options =
     \<lparr>uri = Some ''content://media/1'', endpoint = Some ''https://tus.example/files'',
      headers = None, metadata = None, customChunkSize = None\<rparr>"

text \<open>
  One upload that runs to its end in two chunks; the same, followed by a \<open>resume\<close>
  of the finished session and the run of the task this submits.
\<close>

definition one_run :: "action list" where
  "one_run =
     [Upload (photo_android ''u1'' (Some ''photo.jpg'')) (Some photo_options),
      Work Returned 0, Work (Created ''https://tus.example/files/1'') 0,
      Work (Offset 0) 0, Work (Sent 100) 0, Work (Offset 100) 0, Work (Sent (- 1)) 0,
      Work Returned 0]"

definition resume_after_exit :: "action list" where
  "resume_after_exit =
     one_run @
     [Resume (Some ''u1''),
      Work Returned 1, Work (Created ''https://tus.example/files/1'') 1,
      Work (Offset 100) 1, Work (Sent (- 1)) 1, Work Returned 1]"


text \<open>
  An upload whose worker has created the remote upload, is then paused, sleeps once in
  the pause loop, and is aborted; and what the worker does next.
\<close>

definition paused_then_aborted :: "action list" where
  "paused_then_aborted =
     [Upload (photo_android ''u1'' (Some ''photo.jpg'')) (Some photo_options),
      Work Returned 0, Work (Created ''https://tus.example/files/1'') 0,
      Pause (Some ''u1''), Work Returned 0, Abort Returned (Some ''u1'')]"

definition after_abort :: "action list" where
  "after_abort = [Work (Offset 0) 0, Work (Sent 100) 0, Work Returned 0]"


section \<open>Basic facts\<close>

lemma getInstance_Some: "getInstance (Some c) = c"
  by (simp add: getInstance_def)

lemma new_URL_empty: "new_URL env [] = Inl (Some ''no protocol: '')"
  by (simp add: new_URL_def url_protocol_def)

lemma map_of_put: "map_of (put k v m) = (map_of m)(k \<mapsto> v)"
  by (simp add: put_def update_conv')

lemma map_of_foldl_put:
  "map_of (foldl (\<lambda>m k. put k (f k) m) acc ks) k =
     (if k \<in> set ks then Some (f k) else map_of acc k)"
  by (induction ks arbitrary: acc) (auto simp: map_of_put)

lemma map_of_copy_entries:
  "map_of (copy_entries j) k = (if k \<in> fst ` set j then Some (getString j k) else None)"
  by (simp add: copy_entries_def map_of_foldl_put)

text \<open>What an \<open>upload\<close> that resolves has done.\<close>

lemma upload_resolved:
  assumes "fst (plugin_upload env (Some options) s) = Resolved res"
  shows "\<exists>fileUri endp inputStream x.
           uri options = Some fileUri \<and> fileUri \<noteq> [] \<and> endpoint options = Some endp \<and>
           openInputStream env fileUri = Inr (Some inputStream) \<and>
           new_CapacitorTusClientRunnable env inputStream (getFileName (query env fileUri))
              (randomUUID env) endp
              (case metadata options of None \<Rightarrow> [] | Some j \<Rightarrow> copy_entries j)
              (case headers options of None \<Rightarrow> [] | Some j \<Rightarrow> copy_entries j) = Inr x \<and>
           res = [(''uploadId'', JString (randomUUID env))] \<and>
           heap (snd (plugin_upload env (Some options) s)) = heap s @ [x] \<and>
           executorsMap (snd (plugin_upload env (Some options) s)) =
             (executorsMap s)(randomUUID env \<mapsto> length (heap s)) \<and>
           pool (snd (plugin_upload env (Some options) s)) =
             pool s @ [\<lparr>target = length (heap s), stage = Queued\<rparr>] \<and>
           trace (snd (plugin_upload env (Some options) s)) = trace s"
  using assms
  by (auto simp: plugin_upload_def Let_def Uri_parse_def submit_def isRunning_get_def
        new_CapacitorTusClientRunnable_def
        split: option.splits sum.splits if_splits)

text \<open>The start of an attempt sets the chunk size of the uploader from the setting.\<close>

lemma attempt_reads_setting:
  assumes "tid < length (pool s)" and "stage (pool s ! tid) = Attempt"
    and "target (pool s ! tid) < length (heap s)"
  shows "observed_chunkSize (target (pool s ! tid)) (run_step (Created url) tid s) =
           Some (getChunkSize (getInstance (config_instance s)))"
  using assms
  by (simp add: observed_chunkSize_def run_step_def Let_def set_stage_def emit_def)



section \<open>The steps preserve the invariant\<close>

subsection \<open>Lists\<close>

lemma map_update_same [simp]: "(map f xs)[i := f (xs ! i)] = map f xs"
  by (cases "i < length xs") (simp_all add: list_update_same_conv list_update_beyond)


lemma nth_update_field: "f y = f (xs ! i) \<Longrightarrow> f (xs[i := y] ! j) = f (xs ! j)"
  by (cases "i < length xs") (auto simp: nth_list_update list_update_beyond)

lemmas nth_update_fields =
  nth_update_field [where f = uploadId] nth_update_field [where f = upload]
  nth_update_field [where f = uploader]

lemma phase_after_append:
  "phase_after p (xs @ ys) =
     (case phase_after p xs of None \<Rightarrow> None | Some q \<Rightarrow> phase_after q ys)"
  by (induction xs arbitrary: p) (auto split: option.splits)

lemma events_in_append: "events_in (xs @ ys) = events_in xs @ events_in ys"
  by (induction xs rule: events_in.induct) auto

lemma mem_events_in: "e \<in> set (events_in es) \<longleftrightarrow> Notify e \<in> set es"
  by (induction es rule: events_in.induct) auto

lemma nth_update_pred: "(P (xs ! i) \<Longrightarrow> P y) \<Longrightarrow> P (xs ! j) \<Longrightarrow> P (xs[i := y] ! j)"
  by (cases "i < length xs") (auto simp: nth_list_update list_update_beyond)

lemma nth_map_eq:
  assumes "map f xs = map f ys" and "i < length ys"
  shows "f (xs ! i) = f (ys ! i)"
  using assms by (metis length_map nth_map)

lemma filter_single:
  assumes "length (filter P xs) \<le> 1" and "i < length xs" and "j < length xs"
    and "P (xs ! i)" and "P (xs ! j)"
  shows "i = j"
  using assms
proof (induction xs arbitrary: i j)
  case Nil
  then show ?case by simp
next
  case (Cons x xs)
  have ne: "\<And>k. k < length xs \<Longrightarrow> P (xs ! k) \<Longrightarrow> filter P xs \<noteq> []"
    by (auto simp: filter_empty_conv)
  show ?case
  proof (cases i)
    case 0
    show ?thesis
    proof (cases j)
      case 0
      with \<open>i = 0\<close> show ?thesis by simp
    next
      case (Suc j')
      with Cons.prems \<open>i = 0\<close> ne [of j'] show ?thesis
        by (cases "filter P xs") auto
    qed
  next
    case (Suc i')
    show ?thesis
    proof (cases j)
      case 0
      with Cons.prems Suc ne [of i'] show ?thesis
        by (cases "filter P xs") auto
    next
      case (Suc j')
      with Cons.prems \<open>i = Suc i'\<close> Cons.IH [of i' j'] show ?thesis
        by (auto split: if_splits)
    qed
  qed
qed

lemma events_of_one_task:
  assumes "\<And>th e. (th, Notify e) \<in> set tr \<Longrightarrow> (ev_uploadId e = u \<longleftrightarrow> th = Worker k)"
  shows "filter (\<lambda>e. ev_uploadId e = u) (events_in (map snd tr)) =
           events_in (map snd (filter (\<lambda>p. fst p = Worker k) tr))"
  using assms
proof (induction tr)
  case Nil
  then show ?case by simp
next
  case (Cons p tr)
  obtain th eff where p: "p = (th, eff)" by (cases p)
  have ih: "filter (\<lambda>e. ev_uploadId e = u) (events_in (map snd tr)) =
           events_in (map snd (filter (\<lambda>p. fst p = Worker k) tr))"
    using Cons by simp
  show ?case
  proof (cases eff)
    case (Notify e)
    then have "ev_uploadId e = u \<longleftrightarrow> th = Worker k"
      using Cons.prems [of th e] p by simp
    then show ?thesis using ih p Notify by simp
  next
    case (Engine ref c)
    then show ?thesis using ih p by simp
  qed
qed

lemma events_of_no_task:
  assumes "\<And>th e. (th, Notify e) \<in> set tr \<Longrightarrow> ev_uploadId e \<noteq> u"
  shows "filter (\<lambda>e. ev_uploadId e = u) (events_in (map snd tr)) = []"
  using assms
proof (induction tr)
  case Nil
  then show ?case by simp
next
  case (Cons p tr)
  obtain th eff where p: "p = (th, eff)" by (cases p)
  show ?case
    using Cons p by (cases eff) auto
qed

subsection \<open>Effects of a task\<close>

lemma task_ok_start [simp]: "task_ok Queued [] ref u up"
  by (simp add: task_ok_def)

lemma task_ok_extend:
  assumes ok: "task_ok st tr ref u up"
    and f1: "\<forall>j r'. j < length es \<and> es ! j = Engine r' UploadChunk \<longrightarrow>
               j = 0 \<and> r' = ref \<and> (\<exists>tb. st = Chunk tb)"
    and f2: "\<forall>tb. st' = Chunk tb \<longrightarrow>
               (es = [] \<and> st = Chunk tb) \<or>
               (st = Wait tb \<and> (\<exists>a b. es = [a, b] \<and> progress_pair ref u tb (upload_metadata up) a b))"
    and f3: "\<forall>tb. st' = Wait tb \<longrightarrow> st = Wait tb \<or> st = Chunk tb \<or> tb = upload_size up"
    and f4: "\<forall>e \<in> set (events_in es). is_onProgress e \<longrightarrow>
               (\<exists>tb. st = Wait tb \<and> totalBytes e = tb \<and>
                     progress e = progress_of (bytesUploaded e) tb)"
  shows "task_ok st' (tr @ es) ref u up"
proof -
  have a: "\<forall>i r'. i < length (tr @ es) \<and> (tr @ es) ! i = Engine r' UploadChunk \<longrightarrow>
         r' = ref \<and> 2 \<le> i \<and>
         progress_pair ref u (upload_size up) (upload_metadata up)
           ((tr @ es) ! (i - 2)) ((tr @ es) ! (i - 1))"
  proof (intro allI impI)
    fix i r'
    assume h: "i < length (tr @ es) \<and> (tr @ es) ! i = Engine r' UploadChunk"
    show "r' = ref \<and> 2 \<le> i \<and>
         progress_pair ref u (upload_size up) (upload_metadata up)
           ((tr @ es) ! (i - 2)) ((tr @ es) ! (i - 1))"
    proof (cases "i < length tr")
      case True
      with h have hi: "tr ! i = Engine r' UploadChunk"
        by (simp add: nth_append)
      from ok have "\<forall>i r'. i < length tr \<and> tr ! i = Engine r' UploadChunk \<longrightarrow>
         r' = ref \<and> 2 \<le> i \<and>
         progress_pair ref u (upload_size up) (upload_metadata up) (tr ! (i - 2)) (tr ! (i - 1))"
        unfolding task_ok_def by blast
      with True hi have "r' = ref \<and> 2 \<le> i \<and>
         progress_pair ref u (upload_size up) (upload_metadata up) (tr ! (i - 2)) (tr ! (i - 1))"
        by blast
      moreover have "(tr @ es) ! (i - 2) = tr ! (i - 2)"
        using True by (intro nth_append_left) arith
      moreover have "(tr @ es) ! (i - 1) = tr ! (i - 1)"
        using True by (intro nth_append_left) arith
      ultimately show ?thesis by simp
    next
      case False
      with h have "i - length tr < length es \<and> es ! (i - length tr) = Engine r' UploadChunk"
        by (auto simp: nth_append)
      with f1 have j: "i - length tr = 0" "r' = ref" "\<exists>tb. st = Chunk tb" by blast+
      with False have i: "i = length tr" by simp
      from j(3) ok have "2 \<le> length tr \<and>
         progress_pair ref u (upload_size up) (upload_metadata up)
           (tr ! (length tr - 2)) (tr ! (length tr - 1))"
        by (auto simp: task_ok_def)
      moreover have "(tr @ es) ! (length tr - 2) = tr ! (length tr - 2)"
        using calculation by (intro nth_append_left) arith
      moreover have "(tr @ es) ! (length tr - 1) = tr ! (length tr - 1)"
        using calculation by (intro nth_append_left) arith
      ultimately show ?thesis using i j(2) by simp
    qed
  qed
  have b: "\<forall>tb. st' = Chunk tb \<longrightarrow>
         tb = upload_size up \<and> 2 \<le> length (tr @ es) \<and>
         progress_pair ref u (upload_size up) (upload_metadata up)
           ((tr @ es) ! (length (tr @ es) - 2)) ((tr @ es) ! (length (tr @ es) - 1))"
  proof (intro allI impI)
    fix tb
    assume "st' = Chunk tb"
    with f2 consider "es = []" "st = Chunk tb"
      | a b where "st = Wait tb" "es = [a, b]" "progress_pair ref u tb (upload_metadata up) a b"
      by blast
    then show "tb = upload_size up \<and> 2 \<le> length (tr @ es) \<and>
         progress_pair ref u (upload_size up) (upload_metadata up)
           ((tr @ es) ! (length (tr @ es) - 2)) ((tr @ es) ! (length (tr @ es) - 1))"
    proof cases
      case 1
      with ok show ?thesis by (simp add: task_ok_def)
    next
      case 2
      with ok have "tb = upload_size up" by (simp add: task_ok_def)
      with 2 show ?thesis by (simp add: nth_append)
    qed
  qed
  have c: "\<forall>tb. st' = Wait tb \<longrightarrow> tb = upload_size up"
    using f3 ok by (auto simp: task_ok_def)
  have d: "\<forall>e \<in> set (events_in (tr @ es)). is_onProgress e \<longrightarrow>
         totalBytes e = upload_size up \<and>
         progress e = progress_of (bytesUploaded e) (upload_size up)"
    using f4 ok by (fastforce simp: task_ok_def events_in_append)
  show ?thesis
    unfolding task_ok_def using a b c d by blast
qed


subsection \<open>Worker steps\<close>

lemma set_stage_simps [simp]:
  "trace (set_stage tid p s) = trace s"
  "heap (set_stage tid p s) = heap s"
  "executorsMap (set_stage tid p s) = executorsMap s"
  "config_instance (set_stage tid p s) = config_instance s"
  "nThreads (set_stage tid p s) = nThreads s"
  "pool (set_stage tid p s) = (pool s)[tid := (pool s ! tid)\<lparr>stage := p\<rparr>]"
  by (simp_all add: set_stage_def)

lemma emit_simps [simp]:
  "trace (emit tid es s) = trace s @ map (Pair (Worker tid)) es"
  "heap (emit tid es s) = heap s"
  "executorsMap (emit tid es s) = executorsMap s"
  "config_instance (emit tid es s) = config_instance s"
  "nThreads (emit tid es s) = nThreads s"
  "pool (emit tid es s) = pool s"
  by (simp_all add: emit_def)

lemma run_step_pool:
  "length (pool (run_step r tid s)) = length (pool s) \<and>
   map target (pool (run_step r tid s)) = map target (pool s) \<and>
   (\<forall>i. i \<noteq> tid \<longrightarrow> pool (run_step r tid s) ! i = pool s ! i)"
  by (simp add: run_step_def Let_def succeed_def thrown_def map_update list_update_same_conv
      split: pc.splits reply.splits option.splits)

lemma run_step_heap:
  "length (heap (run_step r tid s)) = length (heap s) \<and>
   map uploadId (heap (run_step r tid s)) = map uploadId (heap s) \<and>
   map upload (heap (run_step r tid s)) = map upload (heap s) \<and>
   executorsMap (run_step r tid s) = executorsMap s"
  by (simp add: run_step_def Let_def succeed_def thrown_def map_update list_update_same_conv
      split: pc.splits reply.splits option.splits)


lemma run_step_trace:
  "trace (run_step r tid s) = trace s @ map (Pair (Worker tid)) (emitted r tid s)"
  by (simp add: emitted_def run_step_def Let_def succeed_def thrown_def
      split: pc.splits reply.splits option.splits)

lemma run_step_phase:
  assumes "tid < length (pool s)"
    and "in_loop (stage (pool s ! tid)) \<longrightarrow> uploader (owner tid s) \<noteq> None"
  shows "phase_after (phase_of (stage (pool s ! tid))) (events_in (emitted r tid s)) =
           Some (phase_of (stage (pool (run_step r tid s) ! tid)))"
  using assms
  by (auto simp: emitted_def run_step_def Let_def succeed_def thrown_def owner_def
      split: pc.splits reply.splits option.splits)

lemma run_step_events:
  "\<forall>e \<in> set (events_in (emitted r tid s)).
      ev_uploadId e = uploadId (owner tid s) \<and>
      ev_context e = upload_metadata (upload (owner tid s))"
  by (auto simp: emitted_def run_step_def Let_def succeed_def thrown_def owner_def
      split: pc.splits reply.splits option.splits)



lemma run_step_uploader_kept:
  assumes "uploader (heap s ! j) \<noteq> None"
  shows "uploader (heap (run_step r tid s) ! j) \<noteq> None"
  using assms
  by (auto simp: run_step_def Let_def succeed_def thrown_def
           intro!: nth_update_pred [where P = "\<lambda>x. \<exists>y. uploader x = Some y"]
           split: pc.splits reply.splits option.splits)

lemma run_step_attaches:
  assumes "tid < length (pool s)" and "target (pool s ! tid) < length (heap s)"
    and "in_loop (stage (pool s ! tid)) \<longrightarrow> uploader (owner tid s) \<noteq> None"
    and "in_loop (stage (pool (run_step r tid s) ! tid))"
  shows "uploader (heap (run_step r tid s) ! target (pool s ! tid)) \<noteq> None"
  using assms
  by (auto simp: run_step_def Let_def succeed_def thrown_def owner_def
           split: pc.splits reply.splits option.splits if_splits)

lemma run_step_owner:
  assumes "i < length (pool s)" and "target (pool s ! i) < length (heap s)"
  shows "uploadId (owner i (run_step r tid s)) = uploadId (owner i s) \<and>
         upload (owner i (run_step r tid s)) = upload (owner i s)"
proof -
  have t: "target (pool (run_step r tid s) ! i) = target (pool s ! i)"
    using run_step_pool [of r tid s] assms(1) by (metis length_map nth_map)
  have "uploadId (heap (run_step r tid s) ! target (pool s ! i)) =
          uploadId (heap s ! target (pool s ! i))"
    using run_step_heap [of r tid s] assms(2) by (intro nth_map_eq) simp_all
  moreover have "upload (heap (run_step r tid s) ! target (pool s ! i)) =
          upload (heap s ! target (pool s ! i))"
    using run_step_heap [of r tid s] assms(2) by (intro nth_map_eq) simp_all
  ultimately show ?thesis
    by (simp add: owner_def t)
qed

lemma run_step_task_trace:
  "task_trace i (run_step r tid s) =
     task_trace i s @ (if i = tid then emitted r tid s else [])"
  by (simp add: task_trace_def run_step_trace filter_empty_conv comp_def)


lemma run_step_chunks:
  "\<forall>j r'. j < length (emitted r tid s) \<and> emitted r tid s ! j = Engine r' UploadChunk \<longrightarrow>
      j = 0 \<and> r' = target (pool s ! tid) \<and> (\<exists>tb. stage (pool s ! tid) = Chunk tb)"
  by (auto simp: emitted_def run_step_def Let_def succeed_def thrown_def nth_Cons
           split: pc.splits reply.splits option.splits nat.splits if_splits)

lemma run_step_to_chunk:
  "\<forall>tb. stage (pool (run_step r tid s) ! tid) = Chunk tb \<longrightarrow>
      (emitted r tid s = [] \<and> stage (pool s ! tid) = Chunk tb) \<or>
      (stage (pool s ! tid) = Wait tb \<and>
       (\<exists>a b. emitted r tid s = [a, b] \<and>
          progress_pair (target (pool s ! tid)) (uploadId (owner tid s)) tb
            (upload_metadata (upload (owner tid s))) a b))"
  by (auto simp: emitted_def run_step_def Let_def succeed_def thrown_def owner_def
                 progress_pair_def
           split: pc.splits reply.splits option.splits if_splits)

lemma run_step_to_wait:
  "\<forall>tb. stage (pool (run_step r tid s) ! tid) = Wait tb \<longrightarrow>
      stage (pool s ! tid) = Wait tb \<or> stage (pool s ! tid) = Chunk tb \<or>
      tb = upload_size (upload (owner tid s))"
  by (auto simp: run_step_def Let_def succeed_def thrown_def owner_def
           split: pc.splits reply.splits option.splits if_splits)

lemma run_step_progress:
  "\<forall>e \<in> set (events_in (emitted r tid s)). is_onProgress e \<longrightarrow>
      (\<exists>tb. stage (pool s ! tid) = Wait tb \<and> totalBytes e = tb \<and>
            progress e = progress_of (bytesUploaded e) tb)"
  by (auto simp: emitted_def run_step_def Let_def succeed_def thrown_def
           split: pc.splits reply.splits option.splits if_splits)

subsection \<open>The invariant\<close>

lemma invariant_init: "invariant (init n)"
  by (simp add: invariant_def well_formed_def init_def task_trace_def)

text \<open>
  Each kind of change that a call makes keeps the invariant: a change of the flags of a
  session, of the configuration, a call of finalize by the caller, a submission, and a
  new session.
\<close>

lemma invariant_flag:
  assumes "invariant s"
    and "uploadId x' = uploadId (heap s ! ref)"
    and "upload x' = upload (heap s ! ref)"
    and "uploader x' = uploader (heap s ! ref)"
  shows "invariant (s\<lparr>heap := (heap s)[ref := x']\<rparr>)"
  using assms
  by (simp add: invariant_def well_formed_def owner_def task_trace_def nth_update_fields)

lemma invariant_config: "invariant s \<Longrightarrow> invariant (s\<lparr>config_instance := c\<rparr>)"
  by (simp add: invariant_def well_formed_def owner_def task_trace_def)

lemma invariant_caller:
  "invariant s \<Longrightarrow> invariant (s\<lparr>trace := trace s @ [(Caller, Engine ref c)]\<rparr>)"
  by (simp add: invariant_def well_formed_def owner_def task_trace_def)

lemma no_trace_of_new_task:
  assumes "invariant s"
  shows "task_trace (length (pool s)) s = []"
proof -
  have "\<And>eff. (Worker (length (pool s)), eff) \<notin> set (trace s)"
  proof
    fix eff
    assume "(Worker (length (pool s)), eff) \<in> set (trace s)"
    with assms have "length (pool s) < length (pool s)"
      unfolding invariant_def by blast
    then show False by simp
  qed
  then have "\<forall>p \<in> set (trace s). fst p \<noteq> Worker (length (pool s))"
    by (metis prod.collapse)
  then show ?thesis
    by (simp add: task_trace_def filter_empty_conv)
qed

lemma invariant_submit:
  assumes "invariant s" and "ref < length (heap s)"
  shows "invariant (submit ref s)"
proof -
  have t: "task_trace (length (pool s)) s = []"
    by (rule no_trace_of_new_task [OF assms(1)])
  have tt: "\<And>tid. task_trace tid (s\<lparr>pool := pool s @ [\<lparr>target = ref, stage = Queued\<rparr>]\<rparr>) =
                  task_trace tid s"
    by (simp add: task_trace_def)
  show ?thesis
    using assms t
    by (auto simp: invariant_def well_formed_def owner_def submit_def tt nth_append less_Suc_eq)
qed

lemma invariant_new_session:
  assumes "invariant s"
  shows "invariant (s\<lparr>heap := heap s @ [x], executorsMap := (executorsMap s)(u \<mapsto> length (heap s))\<rparr>)"
  using assms
  by (auto simp: invariant_def well_formed_def owner_def task_trace_def nth_append ran_def less_Suc_eq
           split: if_splits)


lemma invariant_upload:
  assumes "invariant s"
  shows "invariant (snd (plugin_upload env call s))"
proof -
  have c: "\<And>c. invariant (s\<lparr>config_instance := c\<rparr>)"
    by (rule invariant_config [OF assms])
  have n: "\<And>c x u. invariant (submit (length (heap s))
             (s\<lparr>config_instance := c, heap := heap s @ [x],
                executorsMap := (executorsMap s)(u \<mapsto> length (heap s))\<rparr>))"
  proof -
    fix c x u
    have "invariant (s\<lparr>config_instance := c\<rparr>\<lparr>heap := heap (s\<lparr>config_instance := c\<rparr>) @ [x],
             executorsMap := (executorsMap (s\<lparr>config_instance := c\<rparr>))
                (u \<mapsto> length (heap (s\<lparr>config_instance := c\<rparr>)))\<rparr>)"
      by (rule invariant_new_session [OF c])
    then have "invariant (s\<lparr>config_instance := c, heap := heap s @ [x],
                executorsMap := (executorsMap s)(u \<mapsto> length (heap s))\<rparr>)"
      by simp
    then show "invariant (submit (length (heap s))
             (s\<lparr>config_instance := c, heap := heap s @ [x],
                executorsMap := (executorsMap s)(u \<mapsto> length (heap s))\<rparr>))"
      by (rule invariant_submit) simp
  qed
  show ?thesis
    using assms c n
    by (simp add: plugin_upload_def Let_def Uri_parse_def isRunning_get_def
          new_CapacitorTusClientRunnable_def split: option.splits sum.splits)
qed

lemma invariant_pause:
  assumes "invariant s"
  shows "invariant (snd (plugin_pause uid s))"
  using assms
  by (auto simp: plugin_pause_def pause_def intro!: invariant_flag split: option.splits)

lemma invariant_ref:
  assumes "invariant s" and "executorsMap s u = Some ref"
  shows "ref < length (heap s)"
  using assms by (auto simp: invariant_def well_formed_def ran_def)

lemma invariant_resume:
  assumes "invariant s"
  shows "invariant (snd (plugin_resume uid s))"
proof (cases uid)
  case None
  then show ?thesis using assms by (simp add: plugin_resume_def)
next
  case (Some u)
  show ?thesis
  proof (cases "executorsMap s u")
    case None
    then show ?thesis using assms Some by (simp add: plugin_resume_def)
  next
    case (Some ref)
    have r: "ref < length (heap s)"
      by (rule invariant_ref [OF assms Some])
    have f: "invariant (s\<lparr>heap := (heap s)[ref := resume (heap s ! ref)]\<rparr>)"
      by (rule invariant_flag [OF assms]) (simp_all add: resume_def)
    have "invariant (submit ref (s\<lparr>heap := (heap s)[ref := resume (heap s ! ref)]\<rparr>))"
      by (rule invariant_submit [OF f]) (simp add: r)
    with f show ?thesis
      using \<open>uid = Some u\<close> Some by (simp add: plugin_resume_def Let_def)
  qed
qed

lemma invariant_abort:
  assumes "invariant s"
  shows "invariant (snd (plugin_abort r uid s))"
proof -
  have f: "\<And>ref. invariant (s\<lparr>heap := (heap s)[ref := (heap s ! ref)\<lparr>shouldFinish := True\<rparr>]\<rparr>)"
    by (rule invariant_flag [OF assms]) simp_all
  have t: "\<And>ref. invariant (s\<lparr>trace := trace s @ [(Caller, Engine ref Finish)]\<rparr>)"
    by (rule invariant_caller [OF assms])
  show ?thesis
    using assms f t
    by (simp add: plugin_abort_def finish_def Let_def split: option.splits reply.splits)
qed


lemma run_step_beyond: "length (pool s) \<le> tid \<Longrightarrow> run_step r tid s = s"
  by (simp add: run_step_def)

lemma invariant_run_step:
  assumes "invariant s"
  shows "invariant (run_step r tid s)"
proof (cases "tid < length (pool s)")
  case False
  then show ?thesis using assms by (simp add: run_step_beyond)
next
  case True
  let ?s = "run_step r tid s"
  have len: "length (pool ?s) = length (pool s)" "length (heap ?s) = length (heap s)"
    using run_step_pool [of r tid s] run_step_heap [of r tid s] by simp_all
  have tg: "\<And>i. i < length (pool s) \<Longrightarrow> target (pool ?s ! i) = target (pool s ! i)"
    using run_step_pool [of r tid s] by (metis length_map nth_map)
  have oth: "\<And>i. i \<noteq> tid \<Longrightarrow> pool ?s ! i = pool s ! i"
    using run_step_pool [of r tid s] by simp
  have rng: "\<And>i. i < length (pool s) \<Longrightarrow> target (pool s ! i) < length (heap s)"
    using assms by (simp add: invariant_def well_formed_def)
  have att: "\<And>i. i < length (pool s) \<Longrightarrow> in_loop (stage (pool s ! i)) \<Longrightarrow>
               uploader (heap s ! target (pool s ! i)) \<noteq> None"
    using assms by (simp add: invariant_def well_formed_def)
  have w: "well_formed ?s"
    unfolding well_formed_def
  proof (intro conjI ballI)
    fix t
    assume "t \<in> set (pool ?s)"
    then obtain i where i: "i < length (pool s)" "t = pool ?s ! i"
      by (metis in_set_conv_nth len(1))
    show "target t < length (heap ?s)"
      using i rng tg len by simp
    show "in_loop (stage t) \<longrightarrow> uploader (heap ?s ! target t) \<noteq> None"
    proof (cases "i = tid")
      case True
      have "in_loop (stage (pool s ! tid)) \<longrightarrow> uploader (owner tid s) \<noteq> None"
        using att [of tid] \<open>tid < length (pool s)\<close> by (simp add: owner_def)
      then show ?thesis
        using run_step_attaches [of tid s r] rng [of tid] \<open>tid < length (pool s)\<close> i True tg [of tid]
        by simp
    next
      case False
      with i oth have "t = pool s ! i" by simp
      then show ?thesis
        using att [of i] i(1) run_step_uploader_kept [of s "target (pool s ! i)" r tid] by simp
    qed
  next
    fix ref
    assume "ref \<in> ran (executorsMap ?s)"
    then show "ref < length (heap ?s)"
      using assms run_step_heap [of r tid s] by (simp add: invariant_def well_formed_def)
  qed
  have a1: "\<forall>i eff. (Worker i, eff) \<in> set (trace ?s) \<longrightarrow> i < length (pool ?s)"
    using assms True by (auto simp: invariant_def run_step_trace len)
  have a2: "\<forall>e. (Caller, Notify e) \<notin> set (trace ?s)"
    using assms by (auto simp: invariant_def run_step_trace)
  have a3: "\<forall>i e. (Worker i, Notify e) \<in> set (trace ?s) \<longrightarrow>
              ev_uploadId e = uploadId (owner i ?s) \<and>
              ev_context e = upload_metadata (upload (owner i ?s))"
  proof (intro allI impI)
    fix i e
    assume m: "(Worker i, Notify e) \<in> set (trace ?s)"
    then have "i < length (pool s)"
      using a1 len by auto
    then have o: "uploadId (owner i ?s) = uploadId (owner i s)"
                 "upload (owner i ?s) = upload (owner i s)"
      using run_step_owner [of i s r tid] rng [of i] by simp_all
    from m have "(Worker i, Notify e) \<in> set (trace s) \<or>
                 (i = tid \<and> e \<in> set (events_in (emitted r tid s)))"
      by (auto simp: run_step_trace mem_events_in)
    then show "ev_uploadId e = uploadId (owner i ?s) \<and>
               ev_context e = upload_metadata (upload (owner i ?s))"
      using assms run_step_events [of r tid s] o by (auto simp: invariant_def)
  qed
  have b: "\<forall>i < length (pool ?s).
             phase_after NotStarted (events_in (task_trace i ?s)) =
               Some (phase_of (stage (pool ?s ! i)))"
  proof (intro allI impI)
    fix i
    assume "i < length (pool ?s)"
    then have i: "i < length (pool s)" using len by simp
    have old: "phase_after NotStarted (events_in (task_trace i s)) =
                 Some (phase_of (stage (pool s ! i)))"
      using assms i by (simp add: invariant_def)
    show "phase_after NotStarted (events_in (task_trace i ?s)) =
            Some (phase_of (stage (pool ?s ! i)))"
    proof (cases "i = tid")
      case True
      have "in_loop (stage (pool s ! tid)) \<longrightarrow> uploader (owner tid s) \<noteq> None"
        using att [of tid] \<open>tid < length (pool s)\<close> by (simp add: owner_def)
      then have "phase_after (phase_of (stage (pool s ! tid))) (events_in (emitted r tid s)) =
                   Some (phase_of (stage (pool ?s ! tid)))"
        using run_step_phase [of tid s r] \<open>tid < length (pool s)\<close> by simp
      then show ?thesis
        using old True by (simp add: run_step_task_trace events_in_append phase_after_append)
    next
      case False
      then show ?thesis
        using old oth [of i] by (simp add: run_step_task_trace)
    qed
  qed
  have e: "\<forall>i < length (pool ?s).
             task_ok (stage (pool ?s ! i)) (task_trace i ?s) (target (pool ?s ! i))
               (uploadId (owner i ?s)) (upload (owner i ?s))"
  proof (intro allI impI)
    fix i
    assume "i < length (pool ?s)"
    then have i: "i < length (pool s)" using len by simp
    have old: "task_ok (stage (pool s ! i)) (task_trace i s) (target (pool s ! i))
                 (uploadId (owner i s)) (upload (owner i s))"
      using assms i by (simp add: invariant_def)
    have o: "uploadId (owner i ?s) = uploadId (owner i s)"
            "upload (owner i ?s) = upload (owner i s)"
      using run_step_owner [of i s r tid] rng [of i] i by simp_all
    show "task_ok (stage (pool ?s ! i)) (task_trace i ?s) (target (pool ?s ! i))
            (uploadId (owner i ?s)) (upload (owner i ?s))"
    proof (cases "i = tid")
      case True
      have "task_ok (stage (pool ?s ! tid)) (task_trace tid s @ emitted r tid s)
              (target (pool s ! tid)) (uploadId (owner tid s)) (upload (owner tid s))"
        using old True
        by (intro task_ok_extend [where st = "stage (pool s ! tid)"]
              run_step_chunks run_step_to_chunk run_step_to_wait run_step_progress) simp
      then show ?thesis
        using True o tg [of tid] i by (simp add: run_step_task_trace)
    next
      case False
      then show ?thesis
        using old o oth [of i] by (simp add: run_step_task_trace)
    qed
  qed
  show ?thesis
    unfolding invariant_def using w a1 a2 a3 b e by blast
qed

lemma invariant_step: "invariant s \<Longrightarrow> invariant (step s a)"
  by (cases a) (simp_all add: invariant_upload invariant_pause invariant_resume invariant_abort invariant_run_step)

lemma execute_snoc: "execute s (acts @ [a]) = step (execute s acts) a"
  by (simp add: execute_def)

lemma invariant_execute: "invariant s \<Longrightarrow> invariant (execute s acts)"
  by (induction acts rule: rev_induct) (simp_all add: execute_snoc invariant_step, simp add: execute_def)

lemma invariant_reachable: "invariant (execute (init n) acts)"
  by (rule invariant_execute [OF invariant_init])


lemma invariant_event_owner:
  assumes "invariant s" and "(th, Notify e) \<in> set (trace s)"
  shows "\<exists>i. th = Worker i \<and> i < length (pool s) \<and> ev_uploadId e = uploadId (owner i s)"
  using assms by (cases th) (auto simp: invariant_def)



subsection \<open>Sessions keep their upload\<close>

lemma execute_append: "execute s (xs @ ys) = execute (execute s xs) ys"
  by (simp add: execute_def)

lemma step_keeps_sessions:
  assumes "ref < length (heap s)"
  shows "length (heap s) \<le> length (heap (step s a)) \<and>
         upload (heap (step s a) ! ref) = upload (heap s ! ref) \<and>
         uploadId (heap (step s a) ! ref) = uploadId (heap s ! ref)"
proof (cases a)
  case (Upload env call)
  with assms show ?thesis
    by (simp add: plugin_upload_def Let_def Uri_parse_def submit_def nth_append
          split: option.splits sum.splits)
next
  case (Pause uid)
  then show ?thesis
    by (simp add: plugin_pause_def pause_def nth_update_fields split: option.splits)
next
  case (Resume uid)
  then show ?thesis
    by (simp add: plugin_resume_def resume_def Let_def submit_def nth_update_fields
          split: option.splits)
next
  case (Abort r uid)
  then show ?thesis
    by (simp add: plugin_abort_def finish_def Let_def nth_update_fields
          split: option.splits reply.splits)
next
  case (Work r tid)
  have "upload (heap (run_step r tid s) ! ref) = upload (heap s ! ref)"
    using run_step_heap [of r tid s] assms by (intro nth_map_eq) simp_all
  moreover have "uploadId (heap (run_step r tid s) ! ref) = uploadId (heap s ! ref)"
    using run_step_heap [of r tid s] assms by (intro nth_map_eq) simp_all
  ultimately show ?thesis
    using Work run_step_heap [of r tid s] by simp
qed

lemma execute_keeps_sessions:
  assumes "ref < length (heap s)"
  shows "length (heap s) \<le> length (heap (execute s acts)) \<and>
         upload (heap (execute s acts) ! ref) = upload (heap s ! ref) \<and>
         uploadId (heap (execute s acts) ! ref) = uploadId (heap s ! ref)"
proof (induction acts rule: rev_induct)
  case Nil
  then show ?case by (simp add: execute_def)
next
  case (snoc a acts)
  then have "ref < length (heap (execute s acts))"
    using assms by simp
  from step_keeps_sessions [OF this, of a] snoc show ?case
    by (simp add: execute_snoc)
qed

lemma invariant_event_context:
  assumes "invariant s" and "(Worker tid, Notify e) \<in> set (trace s)"
  shows "ev_context e = upload_metadata (upload (owner tid s))"
  using assms unfolding invariant_def by blast

subsection \<open>The events of an upload id with one task\<close>

lemma single_submission:
  assumes "submissions u (execute (init n) acts) \<le> 1"
  shows "\<exists>p. phase_after NotStarted (events_for u (execute (init n) acts)) = Some p \<and>
             (\<forall>t \<in> set (pool (execute (init n) acts)).
                uploadId (heap (execute (init n) acts) ! target t) = u \<longrightarrow>
                p = phase_of (stage t))"
proof -
  let ?s = "execute (init n) acts"
  let ?P = "\<lambda>t. uploadId (heap ?s ! target t) = u"
  have i: "invariant ?s" by (rule invariant_reachable)
  show ?thesis
  proof (cases "\<exists>t \<in> set (pool ?s). ?P t")
    case False
    have "\<And>th e. (th, Notify e) \<in> set (trace ?s) \<Longrightarrow> ev_uploadId e \<noteq> u"
    proof -
      fix th e
      assume "(th, Notify e) \<in> set (trace ?s)"
      from invariant_event_owner [OF i this] obtain k where
        k: "k < length (pool ?s)" "ev_uploadId e = uploadId (owner k ?s)" by blast
      then have "pool ?s ! k \<in> set (pool ?s)" by simp
      with False k show "ev_uploadId e \<noteq> u" by (auto simp: owner_def)
    qed
    then have "events_for u ?s = []"
      unfolding events_for_def by (rule events_of_no_task)
    with False show ?thesis by simp
  next
    case True
    then obtain k where k: "k < length (pool ?s)" "?P (pool ?s ! k)"
      by (metis in_set_conv_nth)
    have one: "length (filter ?P (pool ?s)) \<le> 1"
      using assms by (simp add: submissions_def)
    have uniq: "\<And>j. j < length (pool ?s) \<Longrightarrow> ?P (pool ?s ! j) \<Longrightarrow> j = k"
      using filter_single [OF one _ k(1) _ k(2)] by simp
    have "\<And>th e. (th, Notify e) \<in> set (trace ?s) \<Longrightarrow> (ev_uploadId e = u \<longleftrightarrow> th = Worker k)"
    proof -
      fix th e
      assume "(th, Notify e) \<in> set (trace ?s)"
      from invariant_event_owner [OF i this] obtain j where
        j: "th = Worker j" "j < length (pool ?s)" "ev_uploadId e = uploadId (owner j ?s)" by blast
      show "ev_uploadId e = u \<longleftrightarrow> th = Worker k"
        using j k uniq [of j] by (auto simp: owner_def)
    qed
    then have "events_for u ?s = events_in (task_trace k ?s)"
      unfolding events_for_def task_trace_def by (rule events_of_one_task)
    moreover have "phase_after NotStarted (events_in (task_trace k ?s)) =
                     Some (phase_of (stage (pool ?s ! k)))"
      using i k(1) by (simp add: invariant_def)
    moreover have "\<forall>t \<in> set (pool ?s). ?P t \<longrightarrow> t = pool ?s ! k"
      using uniq by (metis in_set_conv_nth)
    ultimately show ?thesis by auto
  qed
qed

lemma resume_submits:
  assumes "executorsMap s u = Some ref" and "\<not> isRunning (heap s ! ref)"
  shows "pool (snd (plugin_resume (Some u) s)) = pool s @ [\<lparr>target = ref, stage = Queued\<rparr>]"
  using assms
  by (simp add: plugin_resume_def Let_def resume_def isRunning_get_def submit_def)

section \<open>The order of the events of a session\<close>

text \<open>
  Claim C1, as the code has it. In every reachable state, the events of each task (each
  submission of a session to the pool) are in order: \<open>onStart\<close>, then any number of
  \<open>onProgress\<close>, then one of \<open>onSuccess\<close> and \<open>onError\<close>, and nothing after
  it; they have reached the phase of the task: none while it is queued, no terminal event
  while it runs, exactly one once it has ended. Every event carries the upload id of the
  session its task runs. When the sessions with upload id \<open>u\<close> were submitted at most
  once, the events emitted for \<open>u\<close> are therefore in that order. A \<open>resume\<close> of a
  known session that is not running, as after the end of its run, submits it once more.
\<close>

theorem event_order_of_each_run:
  assumes "s = execute (init n) acts"
  shows "(\<forall>tid < length (pool s).
            phase_after NotStarted (events_in (task_trace tid s)) =
              Some (phase_of (stage (pool s ! tid)))) \<and>
         (\<forall>tid e. (Worker tid, Notify e) \<in> set (trace s) \<longrightarrow>
            ev_uploadId e = uploadId (owner tid s)) \<and>
         (\<forall>e. (Caller, Notify e) \<notin> set (trace s)) \<and>
         (submissions u s \<le> 1 \<longrightarrow>
            (\<exists>p. phase_after NotStarted (events_for u s) = Some p \<and>
                 (\<forall>t \<in> set (pool s). uploadId (heap s ! target t) = u \<longrightarrow>
                    p = phase_of (stage t)))) \<and>
         (\<forall>ref. executorsMap s u = Some ref \<and> \<not> isRunning (heap s ! ref) \<longrightarrow>
            pool (snd (plugin_resume (Some u) s)) = pool s @ [\<lparr>target = ref, stage = Queued\<rparr>])"
proof -
  have i: "invariant s"
    unfolding assms by (rule invariant_reachable)
  have a: "\<forall>tid < length (pool s).
            phase_after NotStarted (events_in (task_trace tid s)) =
              Some (phase_of (stage (pool s ! tid)))"
    using i unfolding invariant_def by blast
  have b: "\<forall>tid e. (Worker tid, Notify e) \<in> set (trace s) \<longrightarrow>
            ev_uploadId e = uploadId (owner tid s)"
    using i unfolding invariant_def by blast
  have c: "\<forall>e. (Caller, Notify e) \<notin> set (trace s)"
    using i unfolding invariant_def by blast
  have d: "submissions u s \<le> 1 \<longrightarrow>
            (\<exists>p. phase_after NotStarted (events_for u s) = Some p \<and>
                 (\<forall>t \<in> set (pool s). uploadId (heap s ! target t) = u \<longrightarrow>
                    p = phase_of (stage t)))"
    unfolding assms using single_submission by blast
  have e: "\<forall>ref. executorsMap s u = Some ref \<and> \<not> isRunning (heap s ! ref) \<longrightarrow>
            pool (snd (plugin_resume (Some u) s)) = pool s @ [\<lparr>target = ref, stage = Queued\<rparr>]"
    using resume_submits by blast
  from a b c d e show ?thesis by blast
qed

theorem event_order_of_each_run_witness:
  "submissions ''u1'' (execute (init 4) one_run) \<le> 1 \<and>
   phase_after NotStarted (events_for ''u1'' (execute (init 4) one_run)) = Some Ended \<and>
   executorsMap (execute (init 4) one_run) ''u1'' = Some 0 \<and>
   \<not> isRunning (heap (execute (init 4) one_run) ! 0) \<and>
   pool (snd (plugin_resume (Some ''u1'') (execute (init 4) one_run))) =
     pool (execute (init 4) one_run) @ [\<lparr>target = 0, stage = Queued\<rparr>] \<and>
   phase_after NotStarted (events_in (task_trace 0 (execute (init 4) resume_after_exit))) =
     Some Ended \<and>
   phase_after NotStarted (events_in (task_trace 1 (execute (init 4) resume_after_exit))) =
     Some Ended"
proof -
  have h: "submissions ''u1'' (execute (init 4) one_run) \<le> 1"
    by code_simp
  have p: "pool (execute (init 4) one_run) = [\<lparr>target = 0, stage = Done\<rparr>]"
    and q: "heap (execute (init 4) one_run) \<noteq> []"
    and r: "uploadId (heap (execute (init 4) one_run) ! 0) = ''u1''"
    by code_simp+
  have m: "executorsMap (execute (init 4) one_run) ''u1'' = Some 0"
    and k: "\<not> isRunning (heap (execute (init 4) one_run) ! 0)"
    by code_simp+
  have l: "pool (execute (init 4) resume_after_exit) =
             [\<lparr>target = 0, stage = Done\<rparr>, \<lparr>target = 0, stage = Done\<rparr>]"
    by code_simp
  note one = event_order_of_each_run [OF refl, of 4 one_run "''u1''"]
  note two = event_order_of_each_run [OF refl, of 4 resume_after_exit "''u1''"]
  from one h p r have "phase_after NotStarted (events_for ''u1'' (execute (init 4) one_run)) =
                         Some Ended"
    by auto
  moreover from one m k
  have "pool (snd (plugin_resume (Some ''u1'') (execute (init 4) one_run))) =
          pool (execute (init 4) one_run) @ [\<lparr>target = 0, stage = Queued\<rparr>]"
    by blast
  moreover from two l
  have "phase_after NotStarted (events_in (task_trace 0 (execute (init 4) resume_after_exit))) =
          Some Ended"
       "phase_after NotStarted (events_in (task_trace 1 (execute (init 4) resume_after_exit))) =
          Some Ended"
    by auto
  ultimately show ?thesis
    using h m k by blast
qed

text \<open>
  Claim C1 as stated fails when \<open>resume\<close> is called after the run has ended:
  \<open>isRunning\<close> is false then, so \<open>resume\<close> submits the session again, and the
  second run emits \<open>onStart\<close> after the terminal event and a second terminal event.
\<close>

theorem resume_after_exit_counterexample:
  "events_for ''u1'' (execute (init 4) resume_after_exit) =
     [onStart ''u1'' [(''filename'', Some ''photo.jpg'')],
      onProgress ''u1'' (Finite 0) 0 100 [(''filename'', Some ''photo.jpg'')],
      onProgress ''u1'' (Finite 100) 100 100 [(''filename'', Some ''photo.jpg'')],
      onSuccess ''u1'' ''https://tus.example/files/1'' [(''filename'', Some ''photo.jpg'')],
      onStart ''u1'' [(''filename'', Some ''photo.jpg'')],
      onProgress ''u1'' (Finite 100) 100 100 [(''filename'', Some ''photo.jpg'')],
      onSuccess ''u1'' ''https://tus.example/files/1'' [(''filename'', Some ''photo.jpg'')]] \<and>
   phase_after NotStarted (events_for ''u1'' (execute (init 4) resume_after_exit)) = None"
  by code_simp

section \<open>The chunk size of a session\<close>




section \<open>The file name in the metadata\<close>

text \<open>
  Claim C3, as the code has it. Every \<open>upload\<close> that resolves has created one
  session whose metadata holds, under \<open>filename\<close>, the file name derived from the
  content query, whether or not the caller's metadata had a \<open>filename\<close> entry; every
  other key has the value the caller gave it, and keys the caller did not give are absent.
  Whatever happens afterwards, every event emitted by a task of this session has this
  metadata as its context.
\<close>

theorem filename_always_overwritten:
  assumes "s = execute (init n) before"
    and "fst (plugin_upload env (Some options) s) = Resolved res"
  shows "\<exists>fileUri x.
           uri options = Some fileUri \<and>
           heap (snd (plugin_upload env (Some options) s)) = heap s @ [x] \<and>
           map_of (upload_metadata (upload x)) ''filename'' =
             Some (getFileName (query env fileUri)) \<and>
           (\<forall>k. k \<noteq> ''filename'' \<longrightarrow>
              map_of (upload_metadata (upload x)) k =
                (case metadata options of
                   None \<Rightarrow> None
                 | Some j \<Rightarrow> if k \<in> fst ` set j then Some (getString j k) else None)) \<and>
           (\<forall>after tid e.
              (Worker tid, Notify e) \<in>
                 set (trace (execute (snd (plugin_upload env (Some options) s)) after)) \<and>
              target (pool (execute (snd (plugin_upload env (Some options) s)) after) ! tid) =
                 length (heap s) \<longrightarrow>
              ev_context e = upload_metadata (upload x))"
proof -
  let ?s' = "snd (plugin_upload env (Some options) s)"
  from upload_resolved [OF assms(2)] obtain fileUri endp inputStream x where
    u: "uri options = Some fileUri" and
    n: "new_CapacitorTusClientRunnable env inputStream (getFileName (query env fileUri))
              (randomUUID env) endp
              (case metadata options of None \<Rightarrow> [] | Some j \<Rightarrow> copy_entries j)
              (case headers options of None \<Rightarrow> [] | Some j \<Rightarrow> copy_entries j) = Inr x" and
    h: "heap ?s' = heap s @ [x]"
    by blast
  from n have m: "upload_metadata (upload x) =
      put ''filename'' (getFileName (query env fileUri))
        (case metadata options of None \<Rightarrow> [] | Some j \<Rightarrow> copy_entries j)"
    by (auto simp: new_CapacitorTusClientRunnable_def split: sum.splits)
  have a: "map_of (upload_metadata (upload x)) ''filename'' =
             Some (getFileName (query env fileUri))"
    by (simp add: m map_of_put)
  have b: "\<forall>k. k \<noteq> ''filename'' \<longrightarrow>
              map_of (upload_metadata (upload x)) k =
                (case metadata options of
                   None \<Rightarrow> None
                 | Some j \<Rightarrow> if k \<in> fst ` set j then Some (getString j k) else None)"
    by (simp add: m map_of_put map_of_copy_entries split: option.splits)
  have c: "\<forall>after tid e.
              (Worker tid, Notify e) \<in> set (trace (execute ?s' after)) \<and>
              target (pool (execute ?s' after) ! tid) = length (heap s) \<longrightarrow>
              ev_context e = upload_metadata (upload x)"
  proof (intro allI impI)
    fix after tid e
    assume e: "(Worker tid, Notify e) \<in> set (trace (execute ?s' after)) \<and>
               target (pool (execute ?s' after) ! tid) = length (heap s)"
    have "execute ?s' after = execute (init n) (before @ [Upload env (Some options)] @ after)"
      by (simp add: assms(1) execute_append execute_def)
    then have "invariant (execute ?s' after)"
      by (simp add: invariant_reachable)
    from invariant_event_context [OF this, of tid e] e
    have "ev_context e = upload_metadata (upload (heap (execute ?s' after) ! length (heap s)))"
      by (simp add: owner_def)
    moreover have "upload (heap (execute ?s' after) ! length (heap s)) =
                   upload (heap ?s' ! length (heap s))"
      using execute_keeps_sessions [of "length (heap s)" ?s' after] h by simp
    ultimately show "ev_context e = upload_metadata (upload x)"
      using h by simp
  qed
  from u h a b c show ?thesis by blast
qed

theorem filename_always_overwritten_witness:
  "init 4 = execute (init 4) [] \<and>
   fst (plugin_upload (photo_android ''u1'' (Some ''photo.jpg''))
         (Some (photo_options\<lparr>metadata := Some [(''filename'', Some ''mine.jpg'')]\<rparr>)) (init 4)) =
     Resolved [(''uploadId'', JString ''u1'')] \<and>
   (\<exists>fileUri x.
      uri (photo_options\<lparr>metadata := Some [(''filename'', Some ''mine.jpg'')]\<rparr>) = Some fileUri \<and>
      heap (snd (plugin_upload (photo_android ''u1'' (Some ''photo.jpg''))
         (Some (photo_options\<lparr>metadata := Some [(''filename'', Some ''mine.jpg'')]\<rparr>)) (init 4))) =
        heap (init 4) @ [x] \<and>
      map_of (upload_metadata (upload x)) ''filename'' =
        Some (getFileName (query (photo_android ''u1'' (Some ''photo.jpg'')) fileUri)) \<and>
      (\<forall>k. k \<noteq> ''filename'' \<longrightarrow>
         map_of (upload_metadata (upload x)) k =
           (case metadata (photo_options\<lparr>metadata := Some [(''filename'', Some ''mine.jpg'')]\<rparr>) of
              None \<Rightarrow> None
            | Some j \<Rightarrow> if k \<in> fst ` set j then Some (getString j k) else None)) \<and>
      (\<forall>after tid e.
         (Worker tid, Notify e) \<in>
            set (trace (execute (snd (plugin_upload (photo_android ''u1'' (Some ''photo.jpg''))
              (Some (photo_options\<lparr>metadata := Some [(''filename'', Some ''mine.jpg'')]\<rparr>))
              (init 4))) after)) \<and>
         target (pool (execute (snd (plugin_upload (photo_android ''u1'' (Some ''photo.jpg''))
              (Some (photo_options\<lparr>metadata := Some [(''filename'', Some ''mine.jpg'')]\<rparr>))
              (init 4))) after) ! tid) = length (heap (init 4)) \<longrightarrow>
         ev_context e = upload_metadata (upload x)))"
proof -
  have i: "init 4 = execute (init 4) []"
    by (simp add: execute_def)
  have h: "fst (plugin_upload (photo_android ''u1'' (Some ''photo.jpg''))
         (Some (photo_options\<lparr>metadata := Some [(''filename'', Some ''mine.jpg'')]\<rparr>)) (init 4)) =
     Resolved [(''uploadId'', JString ''u1'')]"
    by code_simp
  show ?thesis
    by (intro conjI i h filename_always_overwritten [OF i h])
qed

text \<open>
  Claim C3 as stated fails: a \<open>filename\<close> given by the caller is replaced by the
  derived file name, in the metadata of the session and in the context of its events.
\<close>

theorem caller_filename_counterexample:
  "map_of (upload_metadata (upload (heap (snd (plugin_upload
       (photo_android ''u1'' (Some ''photo.jpg''))
       (Some (photo_options\<lparr>metadata := Some [(''filename'', Some ''mine.jpg'')]\<rparr>))
       (init 4))) ! 0))) ''filename'' = Some (Some ''photo.jpg'') \<and>
   trace (execute (init 4)
       [Upload (photo_android ''u1'' (Some ''photo.jpg''))
          (Some (photo_options\<lparr>metadata := Some [(''filename'', Some ''mine.jpg'')]\<rparr>)),
        Work Returned 0]) =
     [(Worker 0, Notify (onStart ''u1'' [(''filename'', Some ''photo.jpg'')]))]"
  by code_simp

section \<open>Abort while paused\<close>

text \<open>
  Claim C4, evaluated where it fails. A running session is paused and then aborted, so
  \<open>shouldFinish\<close> is set while its worker sleeps in the pause loop. The pause loop
  sees the flag and ends; the worker then emits a progress event and evaluates the loop
  condition, which uploads a chunk before it tests the flag. Only after that chunk does
  the loop end and \<open>uploader.finish()\<close> run.
\<close>

theorem chunk_sent_after_abort_while_paused:
  "isPaused (heap (execute (init 4) paused_then_aborted) ! 0) \<and>
   shouldFinish (heap (execute (init 4) paused_then_aborted) ! 0) \<and>
   stage (pool (execute (init 4) paused_then_aborted) ! 0) = Wait 100 \<and>
   task_trace 0 (execute (init 4) paused_then_aborted) =
     [Notify (onStart ''u1'' [(''filename'', Some ''photo.jpg'')]),
      Engine 0 ResumeOrCreateUpload,
      Engine 0 (SetChunkSize 6291456)] \<and>
   task_trace 0 (execute (init 4) (paused_then_aborted @ after_abort)) =
     [Notify (onStart ''u1'' [(''filename'', Some ''photo.jpg'')]),
      Engine 0 ResumeOrCreateUpload,
      Engine 0 (SetChunkSize 6291456),
      Engine 0 (GetOffset 0),
      Notify (onProgress ''u1'' (Finite 0) 0 100 [(''filename'', Some ''photo.jpg'')]),
      Engine 0 UploadChunk,
      Engine 0 Finish,
      Notify (onSuccess ''u1'' ''https://tus.example/files/1''
                [(''filename'', Some ''photo.jpg'')])]"
  by code_simp

section \<open>Commands with an unknown upload id\<close>

text \<open>
  Claim C5. A \<open>pause\<close>, \<open>resume\<close> or \<open>abort\<close> whose upload id is missing or is
  not a key of the registry is rejected at once with the message
  "Invalid or missing uploadId", and the whole plugin state is returned as it was: no
  event is appended to the trace, the registry is the same, and every session keeps its
  flags.
\<close>

theorem unknown_uploadId_rejected:
  assumes "unknown_id uid s"
  shows "plugin_pause uid s = (Rejected ''Invalid or missing uploadId'', s) \<and>
         plugin_resume uid s = (Rejected ''Invalid or missing uploadId'', s) \<and>
         plugin_abort r uid s = (Rejected ''Invalid or missing uploadId'', s)"
  using assms
  by (auto simp: unknown_id_def plugin_pause_def plugin_resume_def plugin_abort_def
           split: option.splits)

theorem unknown_uploadId_rejected_witness:
  "unknown_id (Some ''no-such-id'') (init 4) \<and>
   plugin_pause (Some ''no-such-id'') (init 4) = (Rejected ''Invalid or missing uploadId'', init 4) \<and>
   plugin_resume (Some ''no-such-id'') (init 4) = (Rejected ''Invalid or missing uploadId'', init 4) \<and>
   plugin_abort Returned (Some ''no-such-id'') (init 4) =
     (Rejected ''Invalid or missing uploadId'', init 4)"
proof -
  have h: "unknown_id (Some ''no-such-id'') (init 4)"
    by (simp add: unknown_id_def init_def)
  from unknown_uploadId_rejected [OF h, of Returned] h show ?thesis
    by simp
qed

section \<open>Uploads with an empty endpoint\<close>

text \<open>
  Claim C6. An \<open>upload\<close> whose endpoint is the empty string and whose uri is not
  empty is rejected within the call: the empty endpoint is not a URL, so the session
  constructor throws before a session exists. The registry, the sessions, the pool and
  the trace are as before: no session is created or submitted and no event is emitted.
\<close>

theorem empty_endpoint_rejected:
  assumes "endpoint options = Some ''''" and "uri options = Some u" and "u \<noteq> []"
  shows "(\<exists>m. fst (plugin_upload env (Some options) s) = Rejected m) \<and>
         executorsMap (snd (plugin_upload env (Some options) s)) = executorsMap s \<and>
         heap (snd (plugin_upload env (Some options) s)) = heap s \<and>
         pool (snd (plugin_upload env (Some options) s)) = pool s \<and>
         trace (snd (plugin_upload env (Some options) s)) = trace s"
  using assms
  by (simp add: plugin_upload_def Let_def Uri_parse_def new_CapacitorTusClientRunnable_def
        new_URL_empty split: option.splits sum.splits)

theorem empty_endpoint_rejected_witness:
  "endpoint (photo_options\<lparr>endpoint := Some ''''\<rparr>) = Some '''' \<and>
   uri (photo_options\<lparr>endpoint := Some ''''\<rparr>) = Some ''content://media/1'' \<and>
   ''content://media/1'' \<noteq> [] \<and>
   (\<exists>m. fst (plugin_upload (photo_android ''u1'' (Some ''photo.jpg''))
               (Some (photo_options\<lparr>endpoint := Some ''''\<rparr>)) (init 4)) = Rejected m) \<and>
   executorsMap (snd (plugin_upload (photo_android ''u1'' (Some ''photo.jpg''))
               (Some (photo_options\<lparr>endpoint := Some ''''\<rparr>)) (init 4))) = executorsMap (init 4) \<and>
   heap (snd (plugin_upload (photo_android ''u1'' (Some ''photo.jpg''))
               (Some (photo_options\<lparr>endpoint := Some ''''\<rparr>)) (init 4))) = heap (init 4) \<and>
   pool (snd (plugin_upload (photo_android ''u1'' (Some ''photo.jpg''))
               (Some (photo_options\<lparr>endpoint := Some ''''\<rparr>)) (init 4))) = pool (init 4) \<and>
   trace (snd (plugin_upload (photo_android ''u1'' (Some ''photo.jpg''))
               (Some (photo_options\<lparr>endpoint := Some ''''\<rparr>)) (init 4))) = trace (init 4)"
  using empty_endpoint_rejected [of "photo_options\<lparr>endpoint := Some ''''\<rparr>" "''content://media/1''"
           "photo_android ''u1'' (Some ''photo.jpg'')" "init 4"]
  by (simp add: photo_options_def)

section \<open>Progress events\<close>



section \<open>Abort\<close>




section \<open>Chunk sizes that are not positive\<close>

text \<open>
  Claim C9. An \<open>upload\<close> whose chunk size is zero or negative is handled exactly as
  the same request without a chunk size, so it does not fail because of it; the
  process-wide chunk size after the call is the one before it; that setting starts at
  6 MiB; and whenever an attempt of a session starts, the session gets the chunk size the
  setting has then.
\<close>

theorem nonpositive_chunkSize_ignored:
  assumes "sint c \<le> 0"
  shows "plugin_upload env (Some (options\<lparr>customChunkSize := Some c\<rparr>)) s =
           plugin_upload env (Some (options\<lparr>customChunkSize := None\<rparr>)) s \<and>
         getChunkSize (getInstance (config_instance
             (snd (plugin_upload env (Some (options\<lparr>customChunkSize := Some c\<rparr>)) s)))) =
           getChunkSize (getInstance (config_instance s)) \<and>
         getChunkSize (getInstance (config_instance (init n))) = 6 * 1024 * 1024 \<and>
         (\<forall>s' tid url.
            tid < length (pool s') \<and> stage (pool s' ! tid) = Attempt \<and>
            target (pool s' ! tid) < length (heap s') \<longrightarrow>
            observed_chunkSize (target (pool s' ! tid)) (run_step (Created url) tid s') =
              Some (getChunkSize (getInstance (config_instance s'))))"
  using assms
  by (simp add: plugin_upload_def Let_def getInstance_Some getChunkSize_def init_def
        getInstance_def new_CapacitorTusClientConfig_def submit_def attempt_reads_setting
        split: option.splits sum.splits)

theorem nonpositive_chunkSize_ignored_witness:
  "sint (- 1 :: 32 word) \<le> 0 \<and>
   plugin_upload (photo_android ''u1'' (Some ''photo.jpg''))
       (Some (photo_options\<lparr>customChunkSize := Some (- 1)\<rparr>)) (init 4) =
     plugin_upload (photo_android ''u1'' (Some ''photo.jpg''))
       (Some (photo_options\<lparr>customChunkSize := None\<rparr>)) (init 4) \<and>
   getChunkSize (getInstance (config_instance
       (snd (plugin_upload (photo_android ''u1'' (Some ''photo.jpg''))
          (Some (photo_options\<lparr>customChunkSize := Some (- 1)\<rparr>)) (init 4))))) =
     getChunkSize (getInstance (config_instance (init 4))) \<and>
   getChunkSize (getInstance (config_instance (init 4))) = 6 * 1024 * 1024 \<and>
   observed_chunkSize 0
     (execute (init 4)
        [Upload (photo_android ''u1'' (Some ''photo.jpg''))
           (Some (photo_options\<lparr>customChunkSize := Some (- 1)\<rparr>)),
         Work Returned 0, Work (Created ''https://tus.example/files/1'') 0]) = Some 6291456"
proof -
  have h: "sint (- 1 :: 32 word) \<le> 0"
    by simp
  have e: "observed_chunkSize 0
     (execute (init 4)
        [Upload (photo_android ''u1'' (Some ''photo.jpg''))
           (Some (photo_options\<lparr>customChunkSize := Some (- 1)\<rparr>)),
         Work Returned 0, Work (Created ''https://tus.example/files/1'') 0]) = Some 6291456"
    by code_simp
  from nonpositive_chunkSize_ignored [OF h, of "photo_android ''u1'' (Some ''photo.jpg'')"
         photo_options "init 4" 4]
  show ?thesis
    using h e by blast
qed

section \<open>The derived file name\<close>

text \<open>
  Claim C10, evaluated where it fails. The content query answers with a cursor that has
  a display-name column and one row whose cell is \<open>null\<close>. \<open>getFileName\<close> returns
  that \<open>null\<close> instead of \<open>unknown_file\<close>; the \<open>filename\<close> entry of the
  session's metadata is \<open>null\<close>, and the fingerprint is made from the text
  \<open>null\<close>.
\<close>

theorem null_display_name_is_passed_on:
  "getFileName (query (photo_android ''u1'' None) ''content://media/1'') = None \<and>
   map_of (upload_metadata (upload (heap (snd (plugin_upload
       (photo_android ''u1'' None) (Some photo_options) (init 4))) ! 0))) ''filename'' =
     Some None \<and>
   fingerprint (upload (heap (snd (plugin_upload
       (photo_android ''u1'' None) (Some photo_options) (init 4))) ! 0)) = ''null-u1''"
  by code_simp

end
